theory Spec2Isabelle
  imports Complex_Main
begin

section \<open>Shared enumerations and dataclasses (interpreter/types.py)\<close>

datatype StepID = STEP_2 | STEP_3 | STEP_4 | STEP_5 | STEP_6 | STEP_7

datatype StepOrientation =
    NONE | RIGHT_OVER_LEFT | LEFT_OVER_RIGHT | LEFT_THUMB | RIGHT_THUMB
  | LEFT_FINGERTIPS | RIGHT_FINGERTIPS

datatype StepState = NOT_STARTED | IN_PROGRESS | COMPLETED | UNCERTAIN

datatype UncertaintyReason = AMBIGUOUS_HANDS | LOW_CONFIDENCE | CAMERA_DROPPED | ROI_EXIT

text \<open>The LED states \<open>CURRENT\<close>, \<open>COMPLETED\<close>, \<open>IDLE\<close>; prefixed because
  \<open>COMPLETED\<close> is also a step state.\<close>

datatype LedSignalState = LED_CURRENT | LED_COMPLETED | LED_IDLE

datatype StepSignalSource = MODEL | HEURISTIC | DEMO

text \<open>The \<open>.value\<close> of the string enums.\<close>

fun step_value :: "StepID \<Rightarrow> string" where
  "step_value STEP_2 = ''STEP_2''"
| "step_value STEP_3 = ''STEP_3''"
| "step_value STEP_4 = ''STEP_4''"
| "step_value STEP_5 = ''STEP_5''"
| "step_value STEP_6 = ''STEP_6''"
| "step_value STEP_7 = ''STEP_7''"

fun orientation_value :: "StepOrientation \<Rightarrow> string" where
  "orientation_value NONE = ''NONE''"
| "orientation_value RIGHT_OVER_LEFT = ''RIGHT_OVER_LEFT''"
| "orientation_value LEFT_OVER_RIGHT = ''LEFT_OVER_RIGHT''"
| "orientation_value LEFT_THUMB = ''LEFT_THUMB''"
| "orientation_value RIGHT_THUMB = ''RIGHT_THUMB''"
| "orientation_value LEFT_FINGERTIPS = ''LEFT_FINGERTIPS''"
| "orientation_value RIGHT_FINGERTIPS = ''RIGHT_FINGERTIPS''"

fun reason_value :: "UncertaintyReason \<Rightarrow> string" where
  "reason_value AMBIGUOUS_HANDS = ''AMBIGUOUS_HANDS''"
| "reason_value LOW_CONFIDENCE = ''LOW_CONFIDENCE''"
| "reason_value CAMERA_DROPPED = ''CAMERA_DROPPED''"
| "reason_value ROI_EXIT = ''ROI_EXIT''"

text \<open>\<open>VALID_STEP_IDS\<close> of config/loader.py, in its order.\<close>

definition VALID_STEP_IDS :: "StepID list" where
  "VALID_STEP_IDS = [STEP_2, STEP_3, STEP_4, STEP_5, STEP_6, STEP_7]"

text \<open>Confidences are Python floats; the model keeps their numeric value (no NaN).\<close>

record StepSignal =
  sig_step_id :: StepID
  sig_orientation :: StepOrientation
  sig_confidence :: real
  is_confident :: bool
  sig_timestamp_ms :: int
  sig_source :: StepSignalSource
  sig_notes :: "string option"

record StepStatus =
  step_id :: StepID
  orientation :: StepOrientation
  state :: StepState
  accumulated_ms :: int
  completed_ts :: "int option"
  uncertainty_count :: int

text \<open>\<open>StepStatus(step_id=step)\<close>: the dataclass defaults.\<close>

definition new_status :: "StepID \<Rightarrow> StepStatus" where
  "new_status k = \<lparr> step_id = k, orientation = NONE, state = NOT_STARTED,
                    accumulated_ms = 0, completed_ts = None, uncertainty_count = 0 \<rparr>"

record UncertaintyEvent =
  ue_timestamp_ms :: int
  ue_reason :: UncertaintyReason
  ue_details :: "string option"

record StepThreshold =
  duration_ms :: int
  confidence_min :: real
  orientation_hint :: "string option"

text \<open>Python truthiness of an \<open>Optional[str]\<close>: \<open>None\<close> and the empty string are falsy.\<close>

fun truthy :: "string option \<Rightarrow> bool" where
  "truthy None = False"
| "truthy (Some s) = (s \<noteq> [])"


section \<open>The LED client (feedback/esp8266.py)\<close>

text \<open>
  The HTTP transport is the environment. A client keeps the list of requests it has
  issued; the outcome of its \<open>n\<close>-th request (counted from 0) is \<open>net n\<close>, either
  success or a \<open>requests.RequestException\<close> carrying the formatted reason string.
\<close>

datatype http_outcome = HttpOk | RequestException string

record Esp8266Config =
  esp_enabled :: bool
  esp_timeout_ms :: int
  esp_blink_hz :: real

record LedPayload =
  pl_step :: int
  pl_step_id :: string
  pl_state :: LedSignalState
  pl_timestamp_ms :: int
  pl_blink_hz :: real

datatype http_request = PostSignal LedPayload | PostReset

record Esp8266Client =
  cfg_enabled :: bool
  cfg_blink_hz :: real
  cl_session_id :: "string option"
  cl_disabled :: bool
  cl_last_error :: "string option"
  cl_last_states :: "StepID \<Rightarrow> LedSignalState option"
  cl_requests :: "http_request list"

fun STEP_TO_NUMBER :: "StepID \<Rightarrow> int" where
  "STEP_TO_NUMBER STEP_2 = 2"
| "STEP_TO_NUMBER STEP_3 = 3"
| "STEP_TO_NUMBER STEP_4 = 4"
| "STEP_TO_NUMBER STEP_5 = 5"
| "STEP_TO_NUMBER STEP_6 = 6"
| "STEP_TO_NUMBER STEP_7 = 7"

text \<open>\<open>Esp8266Client.__init__\<close>. Host, endpoint and timeout only shape the URL and the
  socket timeout of a request; the outcome of a request is the environment's.\<close>

definition Esp8266Client_init :: "Esp8266Config \<Rightarrow> Esp8266Client" where
  "Esp8266Client_init ec =
     \<lparr> cfg_enabled = esp_enabled ec, cfg_blink_hz = esp_blink_hz ec, cl_session_id = None,
       cl_disabled = (\<not> esp_enabled ec), cl_last_error = None,
       cl_last_states = (\<lambda>_. None), cl_requests = [] \<rparr>"

definition build_payload :: "Esp8266Client \<Rightarrow> StepID \<Rightarrow> LedSignalState \<Rightarrow> int \<Rightarrow> LedPayload" where
  "build_payload c k st ts =
     \<lparr> pl_step = STEP_TO_NUMBER k, pl_step_id = step_value k, pl_state = st,
       pl_timestamp_ms = ts, pl_blink_hz = cfg_blink_hz c \<rparr>"

text \<open>\<open>_disable\<close>: records the reason unless already disabled.\<close>

definition disable :: "string \<Rightarrow> Esp8266Client \<Rightarrow> Esp8266Client" where
  "disable reason c =
     (if cl_disabled c then c else c\<lparr> cl_disabled := True, cl_last_error := Some reason \<rparr>)"

text \<open>\<open>_reset_leds\<close>: one POST to the reset endpoint; a failure is only logged.\<close>

definition reset_leds :: "Esp8266Client \<Rightarrow> Esp8266Client" where
  "reset_leds c = c\<lparr> cl_requests := cl_requests c @ [PostReset] \<rparr>"

definition led_start_session :: "string \<Rightarrow> Esp8266Client \<Rightarrow> Esp8266Client" where
  "led_start_session sid c =
     (if \<not> cfg_enabled c then c
      else (reset_leds c)\<lparr> cl_session_id := Some sid, cl_disabled := False,
                           cl_last_error := None, cl_last_states := (\<lambda>_. None) \<rparr>)"

definition led_end_session :: "Esp8266Client \<Rightarrow> Esp8266Client" where
  "led_end_session c =
     c\<lparr> cl_session_id := None, cl_last_error := None, cl_last_states := (\<lambda>_. None) \<rparr>"

text \<open>\<open>publish\<close> returns the delivered flag and the client after the call.\<close>

definition publish ::
  "(nat \<Rightarrow> http_outcome) \<Rightarrow> StepID \<Rightarrow> LedSignalState \<Rightarrow> int \<Rightarrow> Esp8266Client
     \<Rightarrow> bool \<times> Esp8266Client" where
  "publish net k st ts c =
     (if \<not> cfg_enabled c \<or> cl_disabled c \<or> \<not> truthy (cl_session_id c) then (False, c)
      else if cl_last_states c k = Some st then (True, c)
      else
        (let payload = build_payload c k st ts;
             outcome = net (length (cl_requests c));
             c1 = c\<lparr> cl_requests := cl_requests c @ [PostSignal payload] \<rparr>
         in case outcome of
              HttpOk \<Rightarrow> (True, c1\<lparr> cl_last_states := (cl_last_states c1)(k \<mapsto> st) \<rparr>)
            | RequestException reason \<Rightarrow> (False, disable reason c1)))"

text \<open>The calls a holder of the client can make between two \<open>start_session\<close> calls.\<close>

datatype led_call = Publish StepID LedSignalState int | EndSession

fun led_call_step ::
  "(nat \<Rightarrow> http_outcome) \<Rightarrow> led_call \<Rightarrow> Esp8266Client \<Rightarrow> bool option \<times> Esp8266Client" where
  "led_call_step net (Publish k st ts) c = (let (r, c') = publish net k st ts c in (Some r, c'))"
| "led_call_step net EndSession c = (None, led_end_session c)"

text \<open>Runs the calls in order, collecting what each \<open>publish\<close> returned.\<close>

fun led_calls ::
  "(nat \<Rightarrow> http_outcome) \<Rightarrow> led_call list \<Rightarrow> Esp8266Client \<Rightarrow> bool list \<times> Esp8266Client" where
  "led_calls net [] c = ([], c)"
| "led_calls net (x # xs) c =
     (let (r, c1) = led_call_step net x c;
          (rs, c2) = led_calls net xs c1
      in ((case r of None \<Rightarrow> rs | Some b \<Rightarrow> b # rs), c2))"


section \<open>Configuration (config/loader.py)\<close>

record ROI =
  roi_x :: int
  roi_y :: int
  roi_width :: int
  roi_height :: int

record SessionConfig =
  motion_threshold :: real
  relative_motion_threshold :: real
  start_window_frames :: int
  stop_timeout_ms :: int
  min_hands :: int
  require_motion :: bool

text \<open>\<open>Config.steps\<close> is a dict keyed by the step names; the fields of \<open>Config\<close> that the
  interpreter pipeline never reads (source path, recording, resolution, hand tracking) are
  left out.\<close>

record Config =
  config_version :: string
  roi :: ROI
  session :: SessionConfig
  steps :: "string \<Rightarrow> StepThreshold option"
  esp8266 :: Esp8266Config

text \<open>Exceptions the modelled code can raise.\<close>

datatype py_error = KeyError | ValueError | ManifestError | ZeroDivisionError | OverflowError


section \<open>The interpreter state machine (interpreter/state_machine.py)\<close>

datatype InterpreterEventType = STEP_STATE | ACTIVE_STEP | UNCERTAINTY

datatype detail = DInt int | DStr string | DBool bool | DNone

record InterpreterEvent =
  ev_type :: InterpreterEventType
  ev_session_id :: string
  ev_timestamp_ms :: int
  ev_step_id :: "StepID option"
  ev_state :: "StepState option"
  ev_details :: "(string \<times> detail) list"

text \<open>
  The fields of \<open>InterpreterStateMachine\<close>. Dicts are maps; \<open>_last_confident_ts\<close> is only
  read with \<open>.get\<close>, so an absent key and a stored \<open>None\<close> are the same \<open>None\<close> here.
  The keys of \<open>_step_statuses\<close> are inserted in \<open>_step_order\<close>, which gives the order of
  \<open>.values()\<close>. The callback's effect is the list \<open>emitted\<close> of events handed to it.
\<close>

record Interp =
  step_thresholds :: "StepID \<Rightarrow> StepThreshold option"
  step_order :: "StepID list"
  session_id :: "string option"
  step_statuses :: "StepID \<Rightarrow> StepStatus option"
  last_confident_ts :: "StepID \<Rightarrow> int option"
  last_published :: "StepID \<Rightarrow> (StepState \<times> int \<times> StepOrientation) option"
  uncertainty_events :: "UncertaintyEvent list"
  active_step_id :: "StepID option"
  led_client :: "Esp8266Client option"
  led_states :: "StepID \<Rightarrow> LedSignalState option"
  emitted :: "InterpreterEvent list"

text \<open>\<open>__init__\<close> with \<open>_build_thresholds\<close>: the valid step ids present in the config.\<close>

definition Interp_init :: "Config \<Rightarrow> Esp8266Client option \<Rightarrow> Interp" where
  "Interp_init cfg led =
     \<lparr> step_thresholds = (\<lambda>k. steps cfg (step_value k)),
       step_order = filter (\<lambda>k. steps cfg (step_value k) \<noteq> None) VALID_STEP_IDS,
       session_id = None,
       step_statuses = (\<lambda>_. None),
       last_confident_ts = (\<lambda>_. None),
       last_published = (\<lambda>_. None),
       uncertainty_events = [],
       active_step_id = None,
       led_client = led,
       led_states = (\<lambda>_. None),
       emitted = [] \<rparr>"

definition emit_event ::
  "InterpreterEventType \<Rightarrow> int \<Rightarrow> StepID option \<Rightarrow> StepState option
     \<Rightarrow> (string \<times> detail) list \<Rightarrow> Interp \<Rightarrow> Interp" where
  "emit_event ty ts k st det s =
     (case session_id s of
        None \<Rightarrow> s
      | Some sid \<Rightarrow>
          if sid = [] then s
          else s\<lparr> emitted := emitted s @
                 [\<lparr> ev_type = ty, ev_session_id = sid, ev_timestamp_ms = ts,
                    ev_step_id = k, ev_state = st, ev_details = det \<rparr>] \<rparr>)"

definition send_led_signal ::
  "(nat \<Rightarrow> http_outcome) \<Rightarrow> StepID \<Rightarrow> LedSignalState \<Rightarrow> int \<Rightarrow> bool \<Rightarrow> Interp \<Rightarrow> Interp" where
  "send_led_signal net k st ts force s =
     (case led_client s of
        None \<Rightarrow> s
      | Some c \<Rightarrow>
          if \<not> force \<and> led_states s k = Some st then s
          else (let (delivered, c') = publish net k st ts c;
                    s1 = s\<lparr> led_client := Some c' \<rparr>
                in if delivered then s1\<lparr> led_states := (led_states s1)(k \<mapsto> st) \<rparr> else s1))"

definition sync_led_active ::
  "(nat \<Rightarrow> http_outcome) \<Rightarrow> StepID option \<Rightarrow> StepID option \<Rightarrow> int \<Rightarrow> Interp \<Rightarrow> Interp" where
  "sync_led_active net previous_step current_step ts s =
     (case led_client s of
        None \<Rightarrow> s
      | Some _ \<Rightarrow>
          (let s1 = (case previous_step of
                       None \<Rightarrow> s
                     | Some p \<Rightarrow>
                         (case step_statuses s p of
                            None \<Rightarrow> s
                          | Some previous_status \<Rightarrow>
                              if state previous_status \<noteq> COMPLETED
                              then send_led_signal net p LED_IDLE ts True s else s))
           in case current_step of
                None \<Rightarrow> s1
              | Some c \<Rightarrow>
                  (case step_statuses s1 c of
                     None \<Rightarrow> s1
                   | Some current_status \<Rightarrow>
                       send_led_signal net c
                         (if state current_status = COMPLETED then LED_COMPLETED else LED_CURRENT)
                         ts False s1)))"

definition emit_active_step ::
  "(nat \<Rightarrow> http_outcome) \<Rightarrow> int \<Rightarrow> StepID option \<Rightarrow> Interp \<Rightarrow> Interp" where
  "emit_active_step net ts previous_step s =
     (if \<not> truthy (session_id s) then s
      else sync_led_active net previous_step (active_step_id s) ts
             (emit_event ACTIVE_STEP ts (active_step_id s) None
                [(''active_step'',
                  (case active_step_id s of None \<Rightarrow> DNone | Some k \<Rightarrow> DStr (step_value k)))] s))"

definition set_active_step ::
  "(nat \<Rightarrow> http_outcome) \<Rightarrow> StepID option \<Rightarrow> int \<Rightarrow> Interp \<Rightarrow> Interp" where
  "set_active_step net k ts s =
     (if active_step_id s = k then s
      else emit_active_step net ts (active_step_id s) (s\<lparr> active_step_id := k \<rparr>))"

text \<open>Python's \<open>max(confident, key=...)\<close> keeps the first of several maximal items.\<close>

fun max_by_confidence :: "StepSignal \<Rightarrow> StepSignal list \<Rightarrow> StepSignal" where
  "max_by_confidence best [] = best"
| "max_by_confidence best (x # xs) =
     max_by_confidence (if sig_confidence x > sig_confidence best then x else best) xs"

definition select_active_signal :: "StepSignal list \<Rightarrow> StepSignal option" where
  "select_active_signal signals =
     (case filter is_confident signals of
        [] \<Rightarrow> None
      | x # xs \<Rightarrow> Some (max_by_confidence x xs))"

text \<open>\<open>{sig.step_id: sig for sig in signal_list}\<close>: a later signal of a step replaces an
  earlier one.\<close>

definition signal_map :: "StepSignal list \<Rightarrow> StepID \<Rightarrow> StepSignal option" where
  "signal_map signals = foldl (\<lambda>m sg. m(sig_step_id sg \<mapsto> sg)) (\<lambda>_. None) signals"

definition record_uncertainty ::
  "UncertaintyReason \<Rightarrow> int \<Rightarrow> string option \<Rightarrow> Interp \<Rightarrow> Interp" where
  "record_uncertainty reason ts details s =
     (if \<not> truthy (session_id s) then s
      else emit_event UNCERTAINTY ts None None
             ((''reason'', DStr (reason_value reason)) #
              (if truthy details then [(''details'', DStr (case details of Some d \<Rightarrow> d | None \<Rightarrow> []))]
               else []))
             (s\<lparr> uncertainty_events := uncertainty_events s @
                   [\<lparr> ue_timestamp_ms = ts, ue_reason = reason, ue_details = details \<rparr>] \<rparr>))"

text \<open>\<open>_publish_status\<close>; \<open>self._step_thresholds[status.step_id]\<close> raises \<open>KeyError\<close> for a
  step without a threshold.\<close>

definition publish_status ::
  "(nat \<Rightarrow> http_outcome) \<Rightarrow> StepStatus \<Rightarrow> int \<Rightarrow> bool \<Rightarrow> Interp \<Rightarrow> py_error + Interp" where
  "publish_status net status ts force s =
     (if \<not> truthy (session_id s) then Inr s
      else
        (let key = (state status, accumulated_ms status, orientation status) in
         if \<not> force \<and> last_published s (step_id status) = Some key then Inr s
         else
           (let s1 = s\<lparr> last_published := (last_published s)(step_id status \<mapsto> key) \<rparr> in
            case step_thresholds s1 (step_id status) of
              None \<Rightarrow> Inl KeyError
            | Some threshold \<Rightarrow>
                (let s2 = emit_event STEP_STATE ts (Some (step_id status)) (Some (state status))
                            [(''accumulated_ms'', DInt (accumulated_ms status)),
                             (''orientation'', DStr (orientation_value (orientation status))),
                             (''completed_ts'',
                                (case completed_ts status of None \<Rightarrow> DNone | Some c \<Rightarrow> DInt c)),
                             (''uncertainty_count'', DInt (uncertainty_count status)),
                             (''duration_ms'', DInt (duration_ms threshold)),
                             (''is_current'', DBool (Some (step_id status) = active_step_id s1))]
                            s1
                 in Inr (if state status = COMPLETED
                         then send_led_signal net (step_id status) LED_COMPLETED ts False s2
                         else s2)))))"

text \<open>\<open>_publish_all\<close> walks \<open>_step_statuses.values()\<close>, here the statuses present, in step order.\<close>

fun publish_all ::
  "(nat \<Rightarrow> http_outcome) \<Rightarrow> int \<Rightarrow> bool \<Rightarrow> StepID list \<Rightarrow> Interp \<Rightarrow> py_error + Interp" where
  "publish_all net ts force [] s = Inr s"
| "publish_all net ts force (k # ks) s =
     (case step_statuses s k of
        None \<Rightarrow> publish_all net ts force ks s
      | Some status \<Rightarrow>
          (case publish_status net status ts force s of
             Inl e \<Rightarrow> Inl e
           | Inr s' \<Rightarrow> publish_all net ts force ks s'))"

text \<open>
  \<open>_update_step\<close>, branch \<open>signal and signal.is_confident\<close>: the mutations of the status
  object and of \<open>_last_confident_ts\<close>. The status object is returned next to the state
  since the caller still holds it.
\<close>

definition confident_update ::
  "StepSignal \<Rightarrow> StepStatus \<Rightarrow> StepThreshold \<Rightarrow> Interp \<Rightarrow> StepStatus \<times> Interp" where
  "confident_update signal status threshold s =
     (let st1 = (if sig_orientation signal \<noteq> NONE
                 then status\<lparr> orientation := sig_orientation signal \<rparr> else status);
          st2 = (if state st1 = NOT_STARTED \<or> state st1 = UNCERTAIN
                 then st1\<lparr> state := IN_PROGRESS \<rparr> else st1);
          last_ts = last_confident_ts s (step_id status);
          current_ts = sig_timestamp_ms signal;
          st3 = (case last_ts of
                   None \<Rightarrow> st2
                 | Some l \<Rightarrow>
                     (let delta = max 0 (current_ts - l) in
                      if delta > 0 then st2\<lparr> accumulated_ms := accumulated_ms st2 + delta \<rparr>
                      else st2));
          s1 = s\<lparr> last_confident_ts := (last_confident_ts s)(step_id status \<mapsto> current_ts) \<rparr>
      in if accumulated_ms st3 \<ge> duration_ms threshold \<and> state st3 \<noteq> COMPLETED
         then (st3\<lparr> state := COMPLETED, completed_ts := Some current_ts \<rparr>,
               s1\<lparr> last_confident_ts := (last_confident_ts s1)(step_id status := None) \<rparr>)
         else (st3, s1))"

text \<open>\<open>_update_step\<close>, the \<open>else\<close> branch (no signal, or a signal that is not confident).\<close>

definition unconfident_update :: "StepStatus \<Rightarrow> int \<Rightarrow> Interp \<Rightarrow> StepStatus \<times> Interp" where
  "unconfident_update status ts s =
     (let s1 = s\<lparr> last_confident_ts := (last_confident_ts s)(step_id status := None) \<rparr>
      in if state status = IN_PROGRESS
         then (status\<lparr> state := UNCERTAIN, uncertainty_count := uncertainty_count status + 1 \<rparr>,
               record_uncertainty LOW_CONFIDENCE ts
                 (Some (''step='' @ step_value (step_id status))) s1)
         else (status, s1))"

text \<open>
  \<open>_update_step\<close>. The status object lives in \<open>_step_statuses\<close> under the key \<open>slot\<close> of
  the caller's loop; its in-place mutation is the update of that entry.
\<close>

definition update_step ::
  "(nat \<Rightarrow> http_outcome) \<Rightarrow> StepID \<Rightarrow> StepStatus \<Rightarrow> StepThreshold \<Rightarrow> StepSignal option
     \<Rightarrow> int \<Rightarrow> Interp \<Rightarrow> py_error + Interp" where
  "update_step net slot status threshold signal ts s =
     (if state status = COMPLETED then Inr s
      else
        (let (status', s1) =
               (case signal of
                  None \<Rightarrow> unconfident_update status ts s
                | Some sg \<Rightarrow>
                    if is_confident sg then confident_update sg status threshold s
                    else unconfident_update status ts s);
             s2 = s1\<lparr> step_statuses := (step_statuses s1)(slot \<mapsto> status') \<rparr>;
             changed = (state status' \<noteq> state status
                        \<or> accumulated_ms status' \<noteq> accumulated_ms status
                        \<or> orientation status' \<noteq> orientation status)
         in if changed then publish_status net status' ts False s2 else Inr s2))"

text \<open>The loop of \<open>process_signals\<close> over \<open>_step_order\<close>; both dict subscripts can raise.\<close>

fun update_steps ::
  "(nat \<Rightarrow> http_outcome) \<Rightarrow> (StepID \<Rightarrow> StepSignal option) \<Rightarrow> int \<Rightarrow> StepID list \<Rightarrow> Interp
     \<Rightarrow> py_error + Interp" where
  "update_steps net sm ts [] s = Inr s"
| "update_steps net sm ts (k # ks) s =
     (case step_statuses s k of
        None \<Rightarrow> Inl KeyError
      | Some status \<Rightarrow>
          (case step_thresholds s k of
             None \<Rightarrow> Inl KeyError
           | Some threshold \<Rightarrow>
               (case update_step net k status threshold (sm k) ts s of
                  Inl e \<Rightarrow> Inl e
                | Inr s' \<Rightarrow> update_steps net sm ts ks s')))"

definition process_signals ::
  "(nat \<Rightarrow> http_outcome) \<Rightarrow> StepSignal list \<Rightarrow> int \<Rightarrow> Interp \<Rightarrow> py_error + Interp" where
  "process_signals net signals ts s =
     (if \<not> truthy (session_id s) then Inr s
      else
        (let active_signal = select_active_signal signals;
             s1 = set_active_step net (map_option sig_step_id active_signal) ts s
         in update_steps net (signal_map signals) ts (step_order s1) s1))"

definition begin_led_session :: "int \<Rightarrow> Interp \<Rightarrow> Interp" where
  "begin_led_session ts s =
     (case led_client s of
        None \<Rightarrow> s
      | Some c \<Rightarrow>
          (case session_id s of
             None \<Rightarrow> s
           | Some sid \<Rightarrow>
               if sid = [] then s else s\<lparr> led_client := Some (led_start_session sid c) \<rparr>))"

definition start_session ::
  "(nat \<Rightarrow> http_outcome) \<Rightarrow> string \<Rightarrow> int \<Rightarrow> Interp \<Rightarrow> py_error + Interp" where
  "start_session net sid ts s =
     (let s1 = s\<lparr> session_id := Some sid,
                  uncertainty_events := [],
                  step_statuses :=
                    (\<lambda>k. if k \<in> set (step_order s) then Some (new_status k) else None),
                  last_confident_ts := (\<lambda>_. None),
                  last_published :=
                    (\<lambda>k. if k \<in> set (step_order s) then Some (NOT_STARTED, 0, NONE) else None),
                  active_step_id := None,
                  led_states := (\<lambda>_. None) \<rparr>;
          s2 = begin_led_session ts s1
      in case publish_all net ts True (step_order s2) s2 of
           Inl e \<Rightarrow> Inl e
         | Inr s3 \<Rightarrow> Inr (emit_active_step net ts None s3))"

definition end_led_session :: "(nat \<Rightarrow> http_outcome) \<Rightarrow> int \<Rightarrow> Interp \<Rightarrow> Interp" where
  "end_led_session net ts s =
     (case led_client s of
        None \<Rightarrow> s
      | Some _ \<Rightarrow>
          (foldl (\<lambda>s' k. send_led_signal net k LED_IDLE ts True s') s (step_order s))
            \<lparr> led_states := (\<lambda>_. None) \<rparr>)"

definition end_session :: "(nat \<Rightarrow> http_outcome) \<Rightarrow> int \<Rightarrow> Interp \<Rightarrow> Interp" where
  "end_session net ts s =
     (if \<not> truthy (session_id s) then s
      else
        (let s1 = set_active_step net None ts s;
             s2 = end_led_session net ts s1;
             s3 = (case led_client s2 of
                     None \<Rightarrow> s2
                   | Some c \<Rightarrow> s2\<lparr> led_client := Some (led_end_session c) \<rparr>)
         in s3\<lparr> session_id := None \<rparr>))"

text \<open>\<open>snapshot\<close>: copies of the statuses, in the order of \<open>.values()\<close>.\<close>

definition snapshot :: "Interp \<Rightarrow> StepStatus list" where
  "snapshot s = List.map_filter (step_statuses s) (step_order s)"

text \<open>The public operations, and a run of them from a given state.\<close>

datatype interp_op =
    OpStartSession string int
  | OpProcessSignals "StepSignal list" int
  | OpEndSession int

fun interp_step :: "(nat \<Rightarrow> http_outcome) \<Rightarrow> interp_op \<Rightarrow> Interp \<Rightarrow> py_error + Interp" where
  "interp_step net (OpStartSession sid ts) s = start_session net sid ts s"
| "interp_step net (OpProcessSignals signals ts) s = process_signals net signals ts s"
| "interp_step net (OpEndSession ts) s = Inr (end_session net ts s)"

fun interp_run :: "(nat \<Rightarrow> http_outcome) \<Rightarrow> interp_op list \<Rightarrow> Interp \<Rightarrow> py_error + Interp" where
  "interp_run net [] s = Inr s"
| "interp_run net (x # xs) s =
     (case interp_step net x s of Inl e \<Rightarrow> Inl e | Inr s' \<Rightarrow> interp_run net xs s')"

text \<open>The frames of one session: \<open>process_signals\<close> calls only.\<close>

fun process_frames ::
  "(nat \<Rightarrow> http_outcome) \<Rightarrow> (StepSignal list \<times> int) list \<Rightarrow> Interp \<Rightarrow> py_error + Interp" where
  "process_frames net [] s = Inr s"
| "process_frames net ((signals, ts) # fs) s =
     (case process_signals net signals ts s of
        Inl e \<Rightarrow> Inl e
      | Inr s' \<Rightarrow> process_frames net fs s')"


section \<open>Invariants of the interpreter state\<close>

text \<open>
  Representation invariant: the step order has no duplicates, every step in it has a
  threshold, every status sits under its own step id, which is in the step order, and
  during a session every step of the order has a status.
\<close>

definition interp_wf :: "Interp \<Rightarrow> bool" where
  "interp_wf s \<longleftrightarrow>
     distinct (step_order s)
     \<and> (\<forall>k \<in> set (step_order s). step_thresholds s k \<noteq> None)
     \<and> (\<forall>k st. step_statuses s k = Some st \<longrightarrow> step_id st = k \<and> k \<in> set (step_order s))
     \<and> (truthy (session_id s) \<longrightarrow> (\<forall>k \<in> set (step_order s). step_statuses s k \<noteq> None))"

text \<open>The invariants of a \<open>StepStatus\<close> against the threshold \<open>th\<close> of its step.\<close>

definition status_ok :: "StepThreshold option \<Rightarrow> StepStatus \<Rightarrow> bool" where
  "status_ok th st \<longleftrightarrow>
     accumulated_ms st \<ge> 0
     \<and> (state st = COMPLETED \<longrightarrow>
          (\<exists>t. th = Some t \<and> accumulated_ms st \<ge> duration_ms t) \<and> completed_ts st \<noteq> None)
     \<and> (state st \<noteq> COMPLETED \<longrightarrow> completed_ts st = None)"

definition status_inv :: "Interp \<Rightarrow> bool" where
  "status_inv s \<longleftrightarrow> (\<forall>k st. step_statuses s k = Some st \<longrightarrow> status_ok (step_thresholds s k) st)"

text \<open>The claim's \<open>delta\<close>: \<open>max(0, t - last_confident_ts)\<close> when the last confident
  timestamp is set, else 0.\<close>

definition dwell_delta :: "int option \<Rightarrow> int \<Rightarrow> int" where
  "dwell_delta last_ts t = (case last_ts of None \<Rightarrow> 0 | Some l \<Rightarrow> max 0 (t - l))"

text \<open>The signal a frame holds for a step is present and confident.\<close>

definition confident_for :: "(StepID \<Rightarrow> StepSignal option) \<Rightarrow> StepID \<Rightarrow> bool" where
  "confident_for sm k = (case sm k of None \<Rightarrow> False | Some sg \<Rightarrow> is_confident sg)"

text \<open>A step that is \<open>IN_PROGRESS\<close> in \<open>s\<close> and has no confident signal in the frame.\<close>

definition loses_confidence :: "Interp \<Rightarrow> (StepID \<Rightarrow> StepSignal option) \<Rightarrow> StepID \<Rightarrow> bool" where
  "loses_confidence s sm k =
     (case step_statuses s k of
        None \<Rightarrow> False
      | Some st \<Rightarrow> state st = IN_PROGRESS \<and> \<not> confident_for sm k)"

text \<open>The \<open>UncertaintyEvent\<close> that \<open>_update_step\<close> records for a step at a frame.\<close>

definition low_confidence_event :: "int \<Rightarrow> StepID \<Rightarrow> UncertaintyEvent" where
  "low_confidence_event ts k =
     \<lparr> ue_timestamp_ms = ts, ue_reason = LOW_CONFIDENCE,
       ue_details = Some (''step='' @ step_value k) \<rparr>"


section \<open>Frame packets and the session gate (interpreter/session_manager.py)\<close>

text \<open>The values a metadata dict holds. Python's \<open>bool\<close> is a subclass of \<open>int\<close>, so
  \<open>isinstance(value, int)\<close> accepts both \<open>PInt\<close> and \<open>PBool\<close>.\<close>

datatype pyval = PInt int | PBool bool | PFloat real | PStr string | PNone

fun isinstance_int :: "pyval \<Rightarrow> bool" where
  "isinstance_int (PInt n) = True"
| "isinstance_int (PBool b) = True"
| "isinstance_int _ = False"

text \<open>The integer a Python \<open>int\<close> instance counts as in a comparison.\<close>

fun int_of_pyval :: "pyval \<Rightarrow> int" where
  "int_of_pyval (PInt n) = n"
| "int_of_pyval (PBool b) = (if b then 1 else 0)"
| "int_of_pyval _ = 0"

record MotionMetrics =
  mean_velocity :: real
  relative_motion :: real

text \<open>\<open>FramePacket\<close> without the opaque \<open>landmarks\<close> and \<open>image\<close> buffers.\<close>

record FramePacket =
  frame_id :: int
  timestamp_ms :: int
  fp_roi :: ROI
  fp_config_version :: string
  motion :: MotionMetrics
  metadata :: "string \<Rightarrow> pyval option"

definition extract_int :: "FramePacket \<Rightarrow> string \<Rightarrow> int \<Rightarrow> int" where
  "extract_int packet key dflt =
     (case metadata packet key of
        None \<Rightarrow> dflt
      | Some v \<Rightarrow> if isinstance_int v then int_of_pyval v else dflt)"

definition meets_start_conditions :: "Config \<Rightarrow> FramePacket \<Rightarrow> bool" where
  "meets_start_conditions cfg packet =
     (let hands_total = extract_int packet ''hand_count'' 0 in
      if hands_total < min_hands (session cfg) then False
      else
        (let hands_in_roi = extract_int packet ''hands_in_roi'' hands_total in
         if hands_in_roi < min_hands (session cfg) then False
         else if require_motion (session cfg) then
           (if mean_velocity (motion packet) < motion_threshold (session cfg) then False
            else if relative_motion (motion packet) < relative_motion_threshold (session cfg)
            then False
            else True)
         else True))"

datatype SessionEventType = STARTED | ENDED

text \<open>The \<open>details\<close> dict of a session event: the ROI for a start, reason and
  \<open>duration_ms\<close> for an end.\<close>

datatype session_details = StartedDetails ROI | EndedDetails string int

record SessionEvent =
  se_type :: SessionEventType
  se_session_id :: string
  se_timestamp_ms :: int
  se_config_version :: string
  se_details :: session_details

text \<open>The fields of \<open>SessionManager\<close>; the deque is a list, oldest entry first, with its
  \<open>maxlen\<close>.\<close>

record SessionManager =
  start_window :: "bool list"
  maxlen :: nat
  session_active :: bool
  current_session_id :: "string option"
  session_start_ts :: "int option"
  last_active_ts :: "int option"

text \<open>\<open>__init__\<close>: \<open>deque(maxlen=n)\<close> raises \<open>ValueError\<close> for a negative \<open>n\<close>.\<close>

definition SessionManager_init :: "Config \<Rightarrow> py_error + SessionManager" where
  "SessionManager_init cfg =
     (if start_window_frames (session cfg) < 0 then Inl ValueError
      else Inr \<lparr> start_window = [], maxlen = nat (start_window_frames (session cfg)),
                 session_active = False, current_session_id = None,
                 session_start_ts = None, last_active_ts = None \<rparr>)"

text \<open>\<open>deque.append\<close> on a bounded deque: the oldest entries fall out.\<close>

definition deque_append :: "nat \<Rightarrow> bool list \<Rightarrow> bool \<Rightarrow> bool list" where
  "deque_append n w x = drop (length w + 1 - n) (w @ [x])"

text \<open>\<open>_start_session\<close>; \<open>sid\<close> is the string \<open>uuid4()\<close> yields in this call.\<close>

definition gate_start_session ::
  "Config \<Rightarrow> string \<Rightarrow> int \<Rightarrow> SessionManager \<Rightarrow> SessionManager \<times> SessionEvent list" where
  "gate_start_session cfg sid ts m =
     (m\<lparr> session_active := True, current_session_id := Some sid,
         session_start_ts := Some ts, last_active_ts := Some ts \<rparr>,
      [\<lparr> se_type = STARTED, se_session_id = sid, se_timestamp_ms = ts,
         se_config_version = config_version cfg, se_details = StartedDetails (roi cfg) \<rparr>])"

definition gate_end_session ::
  "Config \<Rightarrow> int \<Rightarrow> string \<Rightarrow> SessionManager \<Rightarrow> SessionManager \<times> SessionEvent list" where
  "gate_end_session cfg ts reason m =
     (case (session_active m, current_session_id m, session_start_ts m) of
        (True, Some sid, Some start) \<Rightarrow>
          (m\<lparr> session_active := False, current_session_id := None,
              session_start_ts := None, last_active_ts := None, start_window := [] \<rparr>,
           [\<lparr> se_type = ENDED, se_session_id = sid, se_timestamp_ms = ts,
              se_config_version = config_version cfg,
              se_details = EndedDetails reason (max 0 (ts - start)) \<rparr>])
      | _ \<Rightarrow> (m, []))"

definition process_frame ::
  "Config \<Rightarrow> string \<Rightarrow> FramePacket \<Rightarrow> SessionManager \<Rightarrow> SessionManager \<times> SessionEvent list" where
  "process_frame cfg sid packet m =
     (let gate_ok = meets_start_conditions cfg packet;
          m1 = m\<lparr> start_window := deque_append (maxlen m) (start_window m) gate_ok \<rparr>
      in if \<not> session_active m1 then
           (if length (start_window m1) = maxlen m1 \<and> list_all (\<lambda>b. b) (start_window m1)
            then gate_start_session cfg sid (timestamp_ms packet) m1
            else (m1, []))
         else if gate_ok then (m1\<lparr> last_active_ts := Some (timestamp_ms packet) \<rparr>, [])
         else
           (case last_active_ts m1 of
              None \<Rightarrow> (m1, [])
            | Some l \<Rightarrow>
                if timestamp_ms packet - l \<ge> stop_timeout_ms (session cfg)
                then gate_end_session cfg (timestamp_ms packet) ''timeout'' m1
                else (m1, [])))"

text \<open>\<open>reset\<close>; \<open>self._last_active_ts or 0\<close> is 0 for \<open>None\<close>.\<close>

definition gate_reset :: "Config \<Rightarrow> SessionManager \<Rightarrow> SessionManager \<times> SessionEvent list" where
  "gate_reset cfg m =
     (let (m1, evs) =
            (if session_active m
             then gate_end_session cfg (case last_active_ts m of None \<Rightarrow> 0 | Some l \<Rightarrow> l)
                    ''reset'' m
             else (m, []))
      in (m1\<lparr> start_window := [] \<rparr>, evs))"

text \<open>What a caller does to the gate: feed a frame (with the uuid a start would mint) or
  reset it. A run returns the events of each call, in call order.\<close>

datatype gate_op = Frame string FramePacket | Reset

fun gate_step :: "Config \<Rightarrow> gate_op \<Rightarrow> SessionManager \<Rightarrow> SessionManager \<times> SessionEvent list" where
  "gate_step cfg (Frame sid packet) m = process_frame cfg sid packet m"
| "gate_step cfg Reset m = gate_reset cfg m"

fun gate_run ::
  "Config \<Rightarrow> gate_op list \<Rightarrow> SessionManager \<Rightarrow> SessionManager \<times> SessionEvent list list" where
  "gate_run cfg [] m = (m, [])"
| "gate_run cfg (x # xs) m =
     (let (m1, evs) = gate_step cfg x m;
          (m2, rest) = gate_run cfg xs m1
      in (m2, evs # rest))"

text \<open>The timestamps of the frames among the calls, in order.\<close>

fun op_timestamps :: "gate_op list \<Rightarrow> int list" where
  "op_timestamps [] = []"
| "op_timestamps (Frame sid packet # xs) = timestamp_ms packet # op_timestamps xs"
| "op_timestamps (Reset # xs) = op_timestamps xs"

text \<open>
  The sliding window over a stream of \<open>gate_ok\<close> values, seen from the stream: the last
  (at most \<open>n\<close>) values up to and including frame \<open>i\<close>; it is complete and all
  \<open>gate_ok\<close> when it has \<open>n\<close> entries that are all true.
\<close>

definition window_at :: "nat \<Rightarrow> bool list \<Rightarrow> nat \<Rightarrow> bool list" where
  "window_at n gs i = drop (i + 1 - n) (take (i + 1) gs)"

definition window_complete_ok :: "nat \<Rightarrow> bool list \<Rightarrow> nat \<Rightarrow> bool" where
  "window_complete_ok n gs i \<longleftrightarrow>
     length (window_at n gs i) = n \<and> list_all (\<lambda>b. b) (window_at n gs i)"

text \<open>Feeding a list of frames, frame \<open>i\<close> with the uuid \<open>ids i\<close>.\<close>

definition frames_of :: "(nat \<Rightarrow> string) \<Rightarrow> FramePacket list \<Rightarrow> gate_op list" where
  "frames_of ids packets = map (\<lambda>(i, p). Frame (ids i) p) (enumerate 0 packets)"

text \<open>The two events the gate emits.\<close>

definition started_event :: "Config \<Rightarrow> string \<Rightarrow> int \<Rightarrow> SessionEvent" where
  "started_event cfg sid ts =
     \<lparr> se_type = STARTED, se_session_id = sid, se_timestamp_ms = ts,
       se_config_version = config_version cfg, se_details = StartedDetails (roi cfg) \<rparr>"

definition ended_event :: "Config \<Rightarrow> string \<Rightarrow> int \<Rightarrow> string \<Rightarrow> int \<Rightarrow> SessionEvent" where
  "ended_event cfg sid ts reason duration =
     \<lparr> se_type = ENDED, se_session_id = sid, se_timestamp_ms = ts,
       se_config_version = config_version cfg, se_details = EndedDetails reason duration \<rparr>"

text \<open>
  Invariant of the gate: an active session has an id, a start timestamp and a last-active
  timestamp, the latter between the start and the timestamp \<open>hi\<close> of the latest frame.
\<close>

definition gate_inv :: "SessionManager \<Rightarrow> int \<Rightarrow> bool" where
  "gate_inv m hi \<longleftrightarrow>
     (session_active m \<longrightarrow>
        (\<exists>sid st l. current_session_id m = Some sid \<and> session_start_ts m = Some st
                    \<and> last_active_ts m = Some l \<and> st \<le> l \<and> l \<le> hi))"


text \<open>The part of it that holds whatever the order of the timestamps.\<close>

definition gate_active_inv :: "SessionManager \<Rightarrow> bool" where
  "gate_active_inv m \<longleftrightarrow>
     (session_active m \<longrightarrow>
        (\<exists>sid st l. current_session_id m = Some sid \<and> session_start_ts m = Some st
                    \<and> last_active_ts m = Some l))"


section \<open>Python floats\<close>

text \<open>
  A Python \<open>float\<close> is an IEEE-754 binary64 value: NaN, an infinity, or a finite value
  \<open>\<plusminus> m * 2 ^ e\<close> with \<open>0 \<le> m < 2 ^ 53\<close> and \<open>-1074 \<le> e \<le> 971\<close> (a zero has \<open>m = 0\<close>). The
  boolean is the sign bit. Several pairs \<open>(m, e)\<close> may stand for one value; the
  operations below depend on the value only.
\<close>

datatype pyfloat = FFinite bool int int | FInf bool | FNaN



text \<open>The float of a natural number below \<open>2 ^ 53\<close>, such as \<open>1000.0\<close>.\<close>

definition float_of_nat :: "int \<Rightarrow> pyfloat" where
  "float_of_nat n = FFinite False n 0"

definition float_is_zero :: "pyfloat \<Rightarrow> bool" where
  "float_is_zero x = (case x of FFinite s m e \<Rightarrow> m = 0 | _ \<Rightarrow> False)"


text \<open>\<open>int.bit_length\<close>, of a natural number.\<close>

function bit_length :: "int \<Rightarrow> int" where
  "bit_length n = (if n \<le> 0 then 0 else 1 + bit_length (n div 2))"
  by pat_completeness auto

termination
  by (relation "measure nat") auto

declare bit_length.simps [simp del]

text \<open>The integer nearest to \<open>n / d\<close> for \<open>n \<ge> 0\<close> and \<open>d > 0\<close>, a tie going to the even
  neighbour.\<close>

definition round_half_even_div :: "int \<Rightarrow> int \<Rightarrow> int" where
  "round_half_even_div n d =
     (let q = n div d; r = n mod d in
      if 2 * r < d then q else if 2 * r > d then q + 1 else if even q then q else q + 1)"

text \<open>
  The quotient of two non-zero finite floats, rounded to nearest with ties to even:
  \<open>lg\<close> is \<open>\<lfloor>log\<^sub>2 (m1 / m2)\<rfloor>\<close>, \<open>ex\<close> the exponent of the result's last place (not below
  that of the subnormals), \<open>n\<close> the exact quotient in units of \<open>2 ^ ex\<close>, rounded. A
  result of \<open>2 ^ 1024\<close> or more is an infinity.
\<close>

definition float_div_finite :: "bool \<Rightarrow> int \<Rightarrow> int \<Rightarrow> int \<Rightarrow> int \<Rightarrow> pyfloat" where
  "float_div_finite sg m1 e1 m2 e2 =
     (let k = bit_length m1 - bit_length m2;
          lg = (if m1 * 2 ^ nat (- k) \<ge> m2 * 2 ^ nat k then k else k - 1);
          ex = max (- 1074) (lg + e1 - e2 - 52);
          sh = e1 - e2 - ex;
          n = round_half_even_div (m1 * 2 ^ nat sh) (m2 * 2 ^ nat (- sh))
      in if n = 2 ^ 53 then (if ex + 1 > 971 then FInf sg else FFinite sg (2 ^ 52) (ex + 1))
         else if ex > 971 then FInf sg
         else FFinite sg n ex)"

text \<open>\<open>x / y\<close> on floats: Python raises for a zero divisor before anything else; the
  rest is IEEE division.\<close>

definition float_div :: "pyfloat \<Rightarrow> pyfloat \<Rightarrow> py_error + pyfloat" where
  "float_div x y =
     (if float_is_zero y then Inl ZeroDivisionError
      else Inr (case x of
                  FNaN \<Rightarrow> FNaN
                | FInf s1 \<Rightarrow> (case y of FFinite s2 m2 e2 \<Rightarrow> FInf (s1 \<noteq> s2) | _ \<Rightarrow> FNaN)
                | FFinite s1 m1 e1 \<Rightarrow>
                    (case y of
                       FNaN \<Rightarrow> FNaN
                     | FInf s2 \<Rightarrow> FFinite (s1 \<noteq> s2) 0 0
                     | FFinite s2 m2 e2 \<Rightarrow>
                         if m1 = 0 then FFinite (s1 \<noteq> s2) 0 0
                         else float_div_finite (s1 \<noteq> s2) m1 e1 m2 e2)))"

text \<open>\<open>round(x)\<close> of a float, an \<open>int\<close>: ties go to the even neighbour; an infinity
  raises \<open>OverflowError\<close> and NaN raises \<open>ValueError\<close>.\<close>

definition float_round :: "pyfloat \<Rightarrow> py_error + int" where
  "float_round x =
     (case x of
        FNaN \<Rightarrow> Inl ValueError
      | FInf s \<Rightarrow> Inl OverflowError
      | FFinite s m e \<Rightarrow>
          Inr ((if s then - 1 else 1)
               * round_half_even_div (m * 2 ^ nat e) (2 ^ nat (- e))))"


section \<open>Demo manifest and replay (demo/replay.py)\<close>

record StepAnnotation =
  an_step_id :: StepID
  an_orientation :: StepOrientation
  start_ms :: int
  end_ms :: int

text \<open>\<open>DemoAsset\<close> without the file path, which only \<open>_resolve_asset_identifier\<close> reads.
  \<open>fps\<close> is a Python float.\<close>

record DemoAsset =
  asset_id :: string
  fps :: pyfloat
  total_frames :: int
  annotations :: "StepAnnotation list"
  asset_roi :: "ROI option"

record DemoManifest =
  version :: string
  assets :: "string \<Rightarrow> DemoAsset option"



text \<open>\<open>max(1, int(round(1000.0 / asset.fps)))\<close>: the division raises for a zero \<open>fps\<close>,
  \<open>round\<close> for a quotient that is infinite or NaN.\<close>

definition frame_interval_ms :: "DemoAsset \<Rightarrow> py_error + int" where
  "frame_interval_ms a =
     (case float_div (float_of_nat 1000) (fps a) of
        Inl err \<Rightarrow> Inl err
      | Inr q \<Rightarrow> (case float_round q of Inl err \<Rightarrow> Inl err | Inr r \<Rightarrow> Inr (max 1 r)))"

fun annotation_for_timestamp :: "StepAnnotation list \<Rightarrow> int \<Rightarrow> StepAnnotation option" where
  "annotation_for_timestamp [] ts = None"
| "annotation_for_timestamp (a # as) ts =
     (if start_ms a \<le> ts \<and> ts < end_ms a then Some a else annotation_for_timestamp as ts)"

definition replay_metadata :: "DemoAsset \<Rightarrow> int \<Rightarrow> int \<Rightarrow> string \<Rightarrow> pyval option" where
  "replay_metadata a interval ts =
     (let base = (\<lambda>_. None)(''asset_id'' \<mapsto> PStr (asset_id a), ''demo_mode'' \<mapsto> PBool True,
                              ''timestamp_offset_ms'' \<mapsto> PInt ts,
                              ''demo_frame_interval_ms'' \<mapsto> PInt interval)
      in case annotation_for_timestamp (annotations a) ts of
           None \<Rightarrow> base
         | Some an \<Rightarrow>
             base(''demo_step'' \<mapsto> PStr (step_value (an_step_id an)),
                  ''demo_orientation'' \<mapsto> PStr (orientation_value (an_orientation an)),
                  ''demo_step_start_ms'' \<mapsto> PInt (start_ms an),
                  ''demo_step_end_ms'' \<mapsto> PInt (end_ms an)))"

definition replay_packet :: "Config \<Rightarrow> DemoAsset \<Rightarrow> int \<Rightarrow> nat \<Rightarrow> FramePacket" where
  "replay_packet cfg a interval i =
     (let ts = int i * interval in
      \<lparr> frame_id = int i, timestamp_ms = ts,
        fp_roi = (case asset_roi a of None \<Rightarrow> roi cfg | Some r \<Rightarrow> r),
        fp_config_version = config_version cfg,
        motion = \<lparr> mean_velocity = 0, relative_motion = 0 \<rparr>,
        metadata = replay_metadata a interval ts \<rparr>)"

text \<open>\<open>DemoReplay.stream_packets\<close>, the packets the generator yields, in order.
  \<open>manifest.require\<close> raises \<open>ManifestError\<close> for an unknown id; computing the frame
  interval raises before the first packet.\<close>

definition stream_packets :: "DemoManifest \<Rightarrow> Config \<Rightarrow> string \<Rightarrow> py_error + FramePacket list" where
  "stream_packets manifest cfg aid =
     (case assets manifest aid of
        None \<Rightarrow> Inl ManifestError
      | Some a \<Rightarrow>
          (case frame_interval_ms a of
             Inl err \<Rightarrow> Inl err
           | Inr interval \<Rightarrow>
               Inr (map (replay_packet cfg a interval) [0 ..< nat (total_frames a)])))"


section \<open>Demo helpers (cli/_demo_utils.py)\<close>

text \<open>\<open>dict.setdefault\<close>: the stored value stays when the key is present.\<close>

definition setdefault :: "(string \<Rightarrow> pyval option) \<Rightarrow> string \<Rightarrow> pyval \<Rightarrow> (string \<Rightarrow> pyval option)" where
  "setdefault md key v = (case md key of None \<Rightarrow> md(key \<mapsto> v) | Some _ \<Rightarrow> md)"

definition boost_demo_packet :: "FramePacket \<Rightarrow> Config \<Rightarrow> FramePacket" where
  "boost_demo_packet packet cfg =
     (let md = setdefault (setdefault (metadata packet) ''hand_count'' (PInt 2))
                 ''hands_in_roi'' (PInt 2);
          threshold_motion = max (1/2) (motion_threshold (session cfg) * (11/10));
          threshold_relative = max (3/10) (relative_motion_threshold (session cfg) * (11/10))
      in packet\<lparr> motion := \<lparr> mean_velocity = max (mean_velocity (motion packet)) threshold_motion,
                               relative_motion = max (relative_motion (motion packet))
                                                   threshold_relative \<rparr>,
                  metadata := md \<rparr>)"

text \<open>\<open>StepID(value)\<close> and \<open>StepOrientation(value)\<close>: \<open>None\<close> where Python raises
  \<open>ValueError\<close>, which every caller here catches.\<close>

definition parse_step :: "string \<Rightarrow> StepID option" where
  "parse_step v = find (\<lambda>k. step_value k = v) VALID_STEP_IDS"

definition parse_orientation_value :: "string \<Rightarrow> StepOrientation option" where
  "parse_orientation_value v =
     find (\<lambda>k. orientation_value k = v)
       [NONE, RIGHT_OVER_LEFT, LEFT_OVER_RIGHT, LEFT_THUMB, RIGHT_THUMB,
        LEFT_FINGERTIPS, RIGHT_FINGERTIPS]"

definition parse_orientation :: "pyval option \<Rightarrow> StepOrientation" where
  "parse_orientation v =
     (case v of
        Some (PStr s) \<Rightarrow> (case parse_orientation_value s of None \<Rightarrow> NONE | Some ori \<Rightarrow> ori)
      | _ \<Rightarrow> NONE)"

definition coerce_int :: "pyval option \<Rightarrow> int \<Rightarrow> int" where
  "coerce_int v fallback =
     (case v of
        None \<Rightarrow> fallback
      | Some x \<Rightarrow> if isinstance_int x then int_of_pyval x else fallback)"

definition coerce_positive_int :: "pyval option \<Rightarrow> int \<Rightarrow> int" where
  "coerce_positive_int v dflt =
     (case v of
        None \<Rightarrow> dflt
      | Some x \<Rightarrow> if isinstance_int x \<and> int_of_pyval x > 0 then int_of_pyval x else dflt)"

text \<open>The state of \<open>DemoSignalSynthesizer\<close>: elapsed time per annotated segment.\<close>

type_synonym SegmentKey = "StepID \<times> int \<times> int \<times> StepOrientation"

type_synonym DemoSignalSynthesizer = "SegmentKey \<Rightarrow> int option"

definition demo_signal :: "StepID \<Rightarrow> StepOrientation \<Rightarrow> int \<Rightarrow> StepSignal" where
  "demo_signal k ori ts =
     \<lparr> sig_step_id = k, sig_orientation = ori, sig_confidence = 1,
       is_confident = True, sig_timestamp_ms = ts, sig_source = DEMO,
       sig_notes = Some ''demo_annotation'' \<rparr>"

definition generate ::
  "FramePacket \<Rightarrow> DemoSignalSynthesizer \<Rightarrow> StepSignal list \<times> DemoSignalSynthesizer" where
  "generate packet syn =
     (case metadata packet ''demo_step'' of
        Some (PStr step_str) \<Rightarrow>
          (case parse_step step_str of
             None \<Rightarrow> ([], syn)
           | Some k \<Rightarrow>
               (let ori = parse_orientation (metadata packet ''demo_orientation'');
                    start = coerce_int (metadata packet ''demo_step_start_ms'') (timestamp_ms packet);
                    end0 = coerce_int (metadata packet ''demo_step_end_ms'') start;
                    end1 = (if end0 < start then start else end0);
                    duration = max 0 (end1 - start);
                    frame_interval =
                      coerce_positive_int (metadata packet ''demo_frame_interval_ms'') 1;
                    segment_key = (k, start, end1, ori);
                    elapsed = (case syn segment_key of None \<Rightarrow> 0 | Some e \<Rightarrow> e)
                in if duration = 0 then
                     ([demo_signal k ori (if elapsed = 0 then start else start + elapsed)],
                      syn(segment_key \<mapsto> elapsed + frame_interval))
                   else
                     (let remaining = max 0 (duration - elapsed) in
                      if remaining = 0 then ([], syn)
                      else if timestamp_ms packet + frame_interval \<ge> end1 then
                        ([demo_signal k ori (start + duration)],
                         syn(segment_key \<mapsto> duration))
                      else
                        ([demo_signal k ori (if elapsed = 0 then start else start + elapsed)],
                         syn(segment_key \<mapsto> elapsed + min frame_interval remaining)))))
      | _ \<Rightarrow> ([], syn))"


section \<open>The detector runner on replay packets (detectors/runner.py, base.py, ml.py)\<close>

text \<open>Python truthiness of \<open>metadata.get(key)\<close>.\<close>

fun py_truthy :: "pyval option \<Rightarrow> bool" where
  "py_truthy None = False"
| "py_truthy (Some (PInt n)) = (n \<noteq> 0)"
| "py_truthy (Some (PBool b)) = b"
| "py_truthy (Some (PFloat x)) = (x \<noteq> 0)"
| "py_truthy (Some (PStr s)) = (s \<noteq> [])"
| "py_truthy (Some PNone) = False"

text \<open>
  \<open>MLStepDetector.evaluate\<close> for one step on a packet without pixels: the packets of
  this model carry no image, no landmarks and no cached inference result, so
  \<open>MLStepRecognizer.infer\<close> returns \<open>None\<close> and \<open>_score_packet\<close> yields confidence 0 with
  the note \<open>missing_image\<close>; the runner's hand-pair cache stays empty.
\<close>

definition detector_evaluate :: "StepID \<times> StepThreshold \<Rightarrow> FramePacket \<Rightarrow> StepSignal" where
  "detector_evaluate d packet =
     (let k = fst d;
          score = (0::real, NONE, Some ''missing_image'');
          (conf, ori, nts) =
            (if py_truthy (metadata packet ''_disable_demo_hints'') then score
             else (case metadata packet ''demo_step'' of
                     Some (PStr hint) \<Rightarrow>
                       if hint = step_value k
                       then (1, parse_orientation (metadata packet ''demo_orientation''), None)
                       else score
                   | _ \<Rightarrow> score));
          confident = (conf \<ge> confidence_min (snd d))
      in \<lparr> sig_step_id = k, sig_orientation = ori, sig_confidence = conf,
           is_confident = confident, sig_timestamp_ms = timestamp_ms packet,
           sig_source = MODEL,
           sig_notes = (if \<not> confident \<and> nts = None then Some ''insufficient_confidence''
                        else nts) \<rparr>)"

definition runner_evaluate :: "(StepID \<times> StepThreshold) list \<Rightarrow> FramePacket \<Rightarrow> StepSignal list" where
  "runner_evaluate detectors packet = map (\<lambda>d. detector_evaluate d packet) detectors"

text \<open>\<open>build_default_runner\<close>: a detector per step; \<open>BaseDetector.__init__\<close> raises
  \<open>ValueError\<close> for a step missing from the config.\<close>

definition build_default_runner :: "Config \<Rightarrow> py_error + (StepID \<times> StepThreshold) list" where
  "build_default_runner cfg =
     (case those (map (\<lambda>k. map_option (Pair k) (steps cfg (step_value k))) VALID_STEP_IDS) of
        None \<Rightarrow> Inl ValueError
      | Some ds \<Rightarrow> Inr ds)"


section \<open>The demo application (cli/demo.py)\<close>

text \<open>
  The environment of a run: \<open>ids n\<close> is the string the \<open>n\<close>-th call of \<open>uuid4()\<close>
  yields (a session id is minted only when a session starts), and \<open>net\<close> gives the
  outcomes of the LED client's HTTP requests.
\<close>

record DemoApp =
  da_gate :: SessionManager
  da_interp :: Interp
  da_synth :: DemoSignalSynthesizer
  da_runner :: "(StepID \<times> StepThreshold) list"
  da_minted :: nat

text \<open>\<open>DemoApp.__init__\<close> after the manifest is loaded.\<close>

definition DemoApp_init :: "Config \<Rightarrow> py_error + DemoApp" where
  "DemoApp_init cfg =
     (case SessionManager_init cfg of
        Inl e \<Rightarrow> Inl e
      | Inr m \<Rightarrow>
          (case build_default_runner cfg of
             Inl e \<Rightarrow> Inl e
           | Inr ds \<Rightarrow>
               Inr \<lparr> da_gate = m,
                     da_interp = Interp_init cfg
                       (if esp_enabled (esp8266 cfg) then Some (Esp8266Client_init (esp8266 cfg))
                        else None),
                     da_synth = (\<lambda>_. None),
                     da_runner = ds,
                     da_minted = 0 \<rparr>))"

text \<open>\<open>_handle_session_event\<close>, for the events of one gate call, in order.\<close>

fun handle_session_events ::
  "(nat \<Rightarrow> http_outcome) \<Rightarrow> SessionEvent list \<Rightarrow> Interp \<Rightarrow> py_error + Interp" where
  "handle_session_events net [] s = Inr s"
| "handle_session_events net (ev # evs) s =
     (case (case se_type ev of
              STARTED \<Rightarrow> start_session net (se_session_id ev) (se_timestamp_ms ev) s
            | ENDED \<Rightarrow> Inr (end_session net (se_timestamp_ms ev) s)) of
        Inl e \<Rightarrow> Inl e
      | Inr s' \<Rightarrow> handle_session_events net evs s')"

definition count_started :: "SessionEvent list \<Rightarrow> nat" where
  "count_started evs = length (filter (\<lambda>ev. se_type ev = STARTED) evs)"

text \<open>One call of \<open>SessionManager.process_frame\<close> with the application's callback.\<close>

definition demo_gate_frame ::
  "(nat \<Rightarrow> http_outcome) \<Rightarrow> (nat \<Rightarrow> string) \<Rightarrow> Config \<Rightarrow> FramePacket \<Rightarrow> DemoApp
     \<Rightarrow> py_error + DemoApp" where
  "demo_gate_frame net ids cfg packet app =
     (let (m, evs) = process_frame cfg (ids (da_minted app)) packet (da_gate app) in
      case handle_session_events net evs (da_interp app) of
        Inl e \<Rightarrow> Inl e
      | Inr s \<Rightarrow> Inr (app\<lparr> da_gate := m, da_interp := s,
                            da_minted := da_minted app + count_started evs \<rparr>))"

definition demo_process_packet ::
  "(nat \<Rightarrow> http_outcome) \<Rightarrow> (nat \<Rightarrow> string) \<Rightarrow> Config \<Rightarrow> FramePacket \<Rightarrow> DemoApp
     \<Rightarrow> py_error + DemoApp" where
  "demo_process_packet net ids cfg packet app =
     (case demo_gate_frame net ids cfg packet app of
        Inl e \<Rightarrow> Inl e
      | Inr app1 \<Rightarrow>
          if \<not> session_active (da_gate app1) then Inr app1
          else
            (let (synthesized, syn) = generate packet (da_synth app1);
                 signals = (if synthesized = [] then runner_evaluate (da_runner app1) packet
                            else synthesized)
             in case process_signals net signals (timestamp_ms packet) (da_interp app1) of
                  Inl e \<Rightarrow> Inl e
                | Inr s \<Rightarrow> Inr (app1\<lparr> da_interp := s, da_synth := syn \<rparr>)))"

text \<open>The warm-up packets of \<open>_prime_session\<close>.\<close>

definition prime_packet :: "Config \<Rightarrow> int \<Rightarrow> nat \<Rightarrow> FramePacket" where
  "prime_packet cfg warmup_frames i =
     \<lparr> frame_id = - warmup_frames + int i,
       timestamp_ms = - (warmup_frames - int i),
       fp_roi = roi cfg,
       fp_config_version = config_version cfg,
       motion = \<lparr> mean_velocity = max (motion_threshold (session cfg)) (1/2),
                  relative_motion = max (relative_motion_threshold (session cfg)) (3/10) \<rparr>,
       metadata = (\<lambda>_. None)(''hand_count'' \<mapsto> PInt 2, ''hands_in_roi'' \<mapsto> PInt 2) \<rparr>"

definition prime_packets :: "Config \<Rightarrow> FramePacket list" where
  "prime_packets cfg =
     (let warmup_frames = max 0 (start_window_frames (session cfg)) in
      map (prime_packet cfg warmup_frames) [0 ..< nat warmup_frames])"

fun demo_gate_frames ::
  "(nat \<Rightarrow> http_outcome) \<Rightarrow> (nat \<Rightarrow> string) \<Rightarrow> Config \<Rightarrow> FramePacket list \<Rightarrow> DemoApp
     \<Rightarrow> py_error + DemoApp" where
  "demo_gate_frames net ids cfg [] app = Inr app"
| "demo_gate_frames net ids cfg (p # ps) app =
     (case demo_gate_frame net ids cfg p app of
        Inl e \<Rightarrow> Inl e
      | Inr app' \<Rightarrow> demo_gate_frames net ids cfg ps app')"

fun demo_process_packets ::
  "(nat \<Rightarrow> http_outcome) \<Rightarrow> (nat \<Rightarrow> string) \<Rightarrow> Config \<Rightarrow> FramePacket list \<Rightarrow> DemoApp
     \<Rightarrow> py_error + DemoApp" where
  "demo_process_packets net ids cfg [] app = Inr app"
| "demo_process_packets net ids cfg (p # ps) app =
     (case demo_process_packet net ids cfg p app of
        Inl e \<Rightarrow> Inl e
      | Inr app' \<Rightarrow> demo_process_packets net ids cfg ps app')"

text \<open>\<open>self._session_manager.reset()\<close> with the callback.\<close>

definition demo_reset :: "(nat \<Rightarrow> http_outcome) \<Rightarrow> Config \<Rightarrow> DemoApp \<Rightarrow> py_error + DemoApp" where
  "demo_reset net cfg app =
     (let (m, evs) = gate_reset cfg (da_gate app) in
      case handle_session_events net evs (da_interp app) of
        Inl e \<Rightarrow> Inl e
      | Inr s \<Rightarrow> Inr (app\<lparr> da_gate := m, da_interp := s \<rparr>))"

text \<open>
  \<open>DemoApp.run\<close> up to the verification: resolve the asset id (an id not in the manifest
  is the \<open>ManifestError\<close> exit), prime the gate, replay the boosted packets, reset.
\<close>

definition demo_replay ::
  "(nat \<Rightarrow> http_outcome) \<Rightarrow> (nat \<Rightarrow> string) \<Rightarrow> Config \<Rightarrow> DemoManifest \<Rightarrow> string \<Rightarrow> DemoApp
     \<Rightarrow> py_error + DemoApp" where
  "demo_replay net ids cfg manifest aid app =
     (case assets manifest aid of
        None \<Rightarrow> Inl ManifestError
      | Some _ \<Rightarrow>
          (case demo_gate_frames net ids cfg (prime_packets cfg) app of
             Inl e \<Rightarrow> Inl e
           | Inr app1 \<Rightarrow>
               (case stream_packets manifest cfg aid of
                  Inl e \<Rightarrow> Inl e
                | Inr packets \<Rightarrow>
                    (case demo_process_packets net ids cfg
                            (map (\<lambda>p. boost_demo_packet p cfg) packets) app1 of
                       Inl e \<Rightarrow> Inl e
                     | Inr app2 \<Rightarrow> demo_reset net cfg app2))))"


subsection \<open>Verification (\<open>DemoApp._verify_asset\<close>)\<close>

datatype verify_error =
    ShouldHaveCompleted StepID
  | ShouldNotHaveCompleted StepID
  | OrientationMismatch StepID
  | UnexpectedlyCompleted StepID

text \<open>The keys of a dict filled by a loop over \<open>xs\<close>, in insertion order.\<close>

fun dict_keys :: "'a list \<Rightarrow> 'a list" where
  "dict_keys [] = []"
| "dict_keys (x # xs) = x # filter (\<lambda>y. y \<noteq> x) (dict_keys xs)"

text \<open>\<open>annotation_durations[step]\<close>: the sum of \<open>end_ms - start_ms\<close> over the step's
  annotations; \<open>last_orientation[step]\<close>: the orientation of its last annotation.\<close>

definition annotation_duration :: "StepAnnotation list \<Rightarrow> StepID \<Rightarrow> int" where
  "annotation_duration anns k =
     sum_list (map (\<lambda>a. end_ms a - start_ms a) (filter (\<lambda>a. an_step_id a = k) anns))"

definition last_orientation :: "StepAnnotation list \<Rightarrow> StepID \<Rightarrow> StepOrientation option" where
  "last_orientation anns k =
     (case filter (\<lambda>a. an_step_id a = k) anns of
        [] \<Rightarrow> None
      | a # as \<Rightarrow> Some (an_orientation (last (a # as))))"

text \<open>\<open>{status.step_id: status for status in snapshot}\<close>.\<close>

definition snapshot_dict :: "StepStatus list \<Rightarrow> StepID \<Rightarrow> StepStatus option" where
  "snapshot_dict sts = foldl (\<lambda>m st. m(step_id st \<mapsto> st)) (\<lambda>_. None) sts"

text \<open>The errors the first loop appends for one annotated step.\<close>

definition step_errors ::
  "Config \<Rightarrow> StepAnnotation list \<Rightarrow> (StepID \<Rightarrow> StepStatus option) \<Rightarrow> StepID \<Rightarrow> verify_error list" where
  "step_errors cfg anns snap k =
     (let required_ms = (case steps cfg (step_value k) of None \<Rightarrow> 0 | Some th \<Rightarrow> duration_ms th);
          should_complete = (annotation_duration anns k \<ge> required_ms);
          did_complete = (case snap k of None \<Rightarrow> False | Some st \<Rightarrow> state st = COMPLETED)
      in (if should_complete \<and> \<not> did_complete then [ShouldHaveCompleted k]
          else if \<not> should_complete \<and> did_complete then [ShouldNotHaveCompleted k]
          else [])
         @ (if did_complete then
              (case (last_orientation anns k, snap k) of
                 (Some ori, Some st) \<Rightarrow>
                   if ori \<noteq> NONE \<and> orientation st \<noteq> ori then [OrientationMismatch k] else []
               | _ \<Rightarrow> [])
            else []))"

definition verify_errors :: "Config \<Rightarrow> StepAnnotation list \<Rightarrow> StepStatus list \<Rightarrow> verify_error list" where
  "verify_errors cfg anns sts =
     (let snap = snapshot_dict sts;
          annotated = dict_keys (map an_step_id anns)
      in concat (map (step_errors cfg anns snap) annotated)
         @ concat (map (\<lambda>k. case snap k of
                               None \<Rightarrow> []
                             | Some st \<Rightarrow>
                                 if k \<notin> set annotated \<and> state st = COMPLETED
                                 then [UnexpectedlyCompleted k] else [])
                     (dict_keys (map step_id sts))))"

definition verify_asset :: "Config \<Rightarrow> DemoManifest \<Rightarrow> DemoApp \<Rightarrow> string \<Rightarrow> py_error + bool" where
  "verify_asset cfg manifest app aid =
     (case assets manifest aid of
        None \<Rightarrow> Inl ManifestError
      | Some a \<Rightarrow>
          Inr (verify_errors cfg (annotations a) (snapshot (da_interp app)) = []))"

text \<open>The two sets the claim compares: the steps the interpreter marked \<open>COMPLETED\<close>, and
  the annotated steps whose summed annotation duration reaches the configured
  \<open>duration_ms\<close> (0 for a step without a threshold, as in the code).\<close>

definition completed_steps :: "StepStatus list \<Rightarrow> StepID set" where
  "completed_steps sts =
     {k. case snapshot_dict sts k of None \<Rightarrow> False | Some st \<Rightarrow> state st = COMPLETED}"

definition expected_steps :: "Config \<Rightarrow> StepAnnotation list \<Rightarrow> StepID set" where
  "expected_steps cfg anns =
     {k \<in> set (map an_step_id anns).
        annotation_duration anns k
          \<ge> (case steps cfg (step_value k) of None \<Rightarrow> 0 | Some th \<Rightarrow> duration_ms th)}"

text \<open>
  \<open>DemoApp.run\<close> after \<open>DemoApp.__init__\<close>: the exit code. An asset id that does not
  resolve is exit code 2, a failed verification 3.
\<close>

definition demo_run ::
  "(nat \<Rightarrow> http_outcome) \<Rightarrow> (nat \<Rightarrow> string) \<Rightarrow> Config \<Rightarrow> DemoManifest \<Rightarrow> string \<Rightarrow> bool
     \<Rightarrow> py_error + int" where
  "demo_run net ids cfg manifest aid verify =
     (case DemoApp_init cfg of
        Inl e \<Rightarrow> Inl e
      | Inr app \<Rightarrow>
          (case assets manifest aid of
             None \<Rightarrow> Inr 2
           | Some _ \<Rightarrow>
               (case demo_replay net ids cfg manifest aid app of
                  Inl e \<Rightarrow> Inl e
                | Inr app' \<Rightarrow>
                    if verify then
                      (case verify_asset cfg manifest app' aid of
                         Inl e \<Rightarrow> Inl e
                       | Inr ok \<Rightarrow> Inr (if ok then 0 else 3))
                    else Inr 0)))"

text \<open>The interpreter's snapshot when the replay of \<open>DemoApp.run\<close> is over.\<close>

definition demo_final_snapshot ::
  "(nat \<Rightarrow> http_outcome) \<Rightarrow> (nat \<Rightarrow> string) \<Rightarrow> Config \<Rightarrow> DemoManifest \<Rightarrow> string
     \<Rightarrow> py_error + StepStatus list" where
  "demo_final_snapshot net ids cfg manifest aid =
     (case DemoApp_init cfg of
        Inl e \<Rightarrow> Inl e
      | Inr app \<Rightarrow>
          (case demo_replay net ids cfg manifest aid app of
             Inl e \<Rightarrow> Inl e
           | Inr app' \<Rightarrow> Inr (snapshot (da_interp app'))))"


section \<open>The session logger (logging/sessions.py)\<close>

record SignalStats =
  model_count :: int
  heuristic_count :: int
  demo_count :: int
  stats_confidence_sum :: real

definition new_stats :: SignalStats where
  "new_stats = \<lparr> model_count = 0, heuristic_count = 0, demo_count = 0,
                 stats_confidence_sum = 0 \<rparr>"

definition register :: "StepSignalSource \<Rightarrow> real \<Rightarrow> SignalStats \<Rightarrow> SignalStats" where
  "register src c st =
     (case src of
        MODEL \<Rightarrow> st\<lparr> model_count := model_count st + 1,
                      stats_confidence_sum := stats_confidence_sum st + c \<rparr>
      | DEMO \<Rightarrow> st\<lparr> demo_count := demo_count st + 1 \<rparr>
      | HEURISTIC \<Rightarrow> st\<lparr> heuristic_count := heuristic_count st + 1 \<rparr>)"

definition classification_source :: "SignalStats \<Rightarrow> string" where
  "classification_source st =
     (let has_model = (model_count st > 0);
          has_fallback = (heuristic_count st + demo_count st > 0)
      in if has_model \<and> has_fallback then ''MIXED''
         else if has_model then ''MODEL''
         else if has_fallback then ''HEURISTIC''
         else ''UNKNOWN'')"

definition avg_model_confidence :: "SignalStats \<Rightarrow> real option" where
  "avg_model_confidence st =
     (if model_count st \<le> 0 then None
      else Some (stats_confidence_sum st / of_int (model_count st)))"

record FallbackEvent =
  fb_timestamp_ms :: int
  fb_reason :: string
  fb_model_confidence :: "real option"
  fb_landmark_confidence :: "real option"

text \<open>The two strings \<open>handle_session_ended\<close> formats into the notes:
  \<open>duration_ms=<n>\<close> and \<open>reason=<text>\<close>.\<close>

datatype session_note = DurationNote int | ReasonNote string

text \<open>\<open>_SessionState\<close>, the accumulator of one session.\<close>

record SessionState =
  ls_session_id :: string
  ls_config_version :: string
  ls_roi :: ROI
  ls_demo_mode :: bool
  ls_demo_asset_id :: "string option"
  ls_model_version :: "string option"
  ls_start_ts_ms :: int
  ls_notes :: "session_note list"
  ls_step_stats :: "StepID \<Rightarrow> SignalStats option"
  ls_fallback_events :: "FallbackEvent list"
  ls_model_inference_count :: int
  ls_heuristic_fallback_count :: int
  ls_model_confidence_sum :: real
  ls_model_confidence_samples :: int
  ls_inference_latency_sum_ms :: real
  ls_inference_latency_samples :: int

text \<open>The JSON object of one step, of one uncertainty event, and of a session.\<close>

record StepPayload =
  sp_step_id :: string
  sp_orientation :: string
  sp_state :: string
  sp_accumulated_ms :: int
  sp_completed_ts :: "string option"
  sp_uncertainty_count :: int
  sp_classification_source :: string
  sp_model_confidence_avg :: "real option"

record UncertaintyPayload =
  up_timestamp_ms :: int
  up_reason :: string
  up_details :: "string option"

record SessionRecord =
  rec_session_id :: string
  rec_config_version :: string
  rec_model_version :: "string option"
  rec_start_ts :: string
  rec_end_ts :: string
  rec_roi_rect :: ROI
  rec_demo_mode :: bool
  rec_demo_asset_id :: "string option"
  rec_step_statuses :: "StepPayload list"
  rec_uncertainty_events :: "UncertaintyPayload list"
  rec_fallback_events :: "FallbackEvent list"
  rec_total_rubbing_ms :: int
  rec_model_inference_count :: int
  rec_heuristic_fallback_count :: int
  rec_avg_inference_time_ms :: "real option"
  rec_inference_time_samples :: int
  rec_inference_time_sum_ms :: real
  rec_avg_model_confidence :: "real option"
  rec_model_confidence_samples :: int
  rec_model_confidence_sum :: real
  rec_model_usage_rate :: real
  rec_notes :: "session_note list"

fun state_value :: "StepState \<Rightarrow> string" where
  "state_value NOT_STARTED = ''NOT_STARTED''"
| "state_value IN_PROGRESS = ''IN_PROGRESS''"
| "state_value COMPLETED = ''COMPLETED''"
| "state_value UNCERTAIN = ''UNCERTAIN''"

text \<open>
  \<open>_ms_to_iso\<close> renders milliseconds as an ISO-8601 UTC string with the standard
  library's \<open>datetime\<close>; the rendering is the parameter \<open>ms_to_iso\<close>, a function of the
  integer alone.
\<close>

definition serialize_step_status :: "(int \<Rightarrow> string) \<Rightarrow> StepStatus \<Rightarrow> SignalStats \<Rightarrow> StepPayload" where
  "serialize_step_status ms_to_iso status stats =
     \<lparr> sp_step_id = step_value (step_id status),
       sp_orientation = orientation_value (orientation status),
       sp_state = state_value (state status),
       sp_accumulated_ms = accumulated_ms status,
       sp_completed_ts = map_option ms_to_iso (completed_ts status),
       sp_uncertainty_count = uncertainty_count status,
       sp_classification_source = classification_source stats,
       sp_model_confidence_avg = avg_model_confidence stats \<rparr>"

definition serialize_uncertainty :: "UncertaintyEvent \<Rightarrow> UncertaintyPayload" where
  "serialize_uncertainty ev =
     \<lparr> up_timestamp_ms = ue_timestamp_ms ev, up_reason = reason_value (ue_reason ev),
       up_details = (if truthy (ue_details ev) then ue_details ev else None) \<rparr>"

definition build_record ::
  "(int \<Rightarrow> string) \<Rightarrow> SessionState \<Rightarrow> int \<Rightarrow> StepStatus list \<Rightarrow> UncertaintyEvent list
     \<Rightarrow> SessionRecord" where
  "build_record ms_to_iso st end_ts_ms step_sts uncertainties =
     (let stats_of = (\<lambda>status. case ls_step_stats st (step_id status) of
                                  None \<Rightarrow> new_stats | Some x \<Rightarrow> x);
          total_rubbing_ms = sum_list (map (\<lambda>status. max 0 (accumulated_ms status)) step_sts);
          total_classifications = ls_model_inference_count st + ls_heuristic_fallback_count st
      in \<lparr> rec_session_id = ls_session_id st,
           rec_config_version = ls_config_version st,
           rec_model_version = ls_model_version st,
           rec_start_ts = ms_to_iso (ls_start_ts_ms st),
           rec_end_ts = ms_to_iso end_ts_ms,
           rec_roi_rect = ls_roi st,
           rec_demo_mode = ls_demo_mode st,
           rec_demo_asset_id = ls_demo_asset_id st,
           rec_step_statuses =
             map (\<lambda>status. serialize_step_status ms_to_iso status (stats_of status)) step_sts,
           rec_uncertainty_events = map serialize_uncertainty uncertainties,
           rec_fallback_events = ls_fallback_events st,
           rec_total_rubbing_ms = total_rubbing_ms,
           rec_model_inference_count = ls_model_inference_count st,
           rec_heuristic_fallback_count = ls_heuristic_fallback_count st,
           rec_avg_inference_time_ms =
             (if ls_inference_latency_samples st > 0
              then Some (ls_inference_latency_sum_ms st / of_int (ls_inference_latency_samples st))
              else None),
           rec_inference_time_samples = ls_inference_latency_samples st,
           rec_inference_time_sum_ms = ls_inference_latency_sum_ms st,
           rec_avg_model_confidence =
             (if ls_model_confidence_samples st > 0
              then Some (ls_model_confidence_sum st / of_int (ls_model_confidence_samples st))
              else None),
           rec_model_confidence_samples = ls_model_confidence_samples st,
           rec_model_confidence_sum = ls_model_confidence_sum st,
           rec_model_usage_rate =
             (if total_classifications > 0
              then of_int (ls_model_inference_count st) / of_int total_classifications
              else 0),
           rec_notes = ls_notes st \<rparr>)"

text \<open>\<open>SessionLogger\<close>: the open accumulators by session id, and the records appended to
  the log files so far, in append order.\<close>

record SessionLogger =
  lg_sessions :: "string \<Rightarrow> SessionState option"
  lg_written :: "SessionRecord list"

definition SessionLogger_init :: SessionLogger where
  "SessionLogger_init = \<lparr> lg_sessions = (\<lambda>_. None), lg_written = [] \<rparr>"

definition handle_session_started ::
  "SessionEvent \<Rightarrow> ROI \<Rightarrow> bool \<Rightarrow> string option \<Rightarrow> string option \<Rightarrow> SessionLogger
     \<Rightarrow> SessionLogger" where
  "handle_session_started ev r demo aid mv lg =
     lg\<lparr> lg_sessions := (lg_sessions lg)(se_session_id ev \<mapsto>
           \<lparr> ls_session_id = se_session_id ev, ls_config_version = se_config_version ev,
             ls_roi = r, ls_demo_mode = demo, ls_demo_asset_id = aid, ls_model_version = mv,
             ls_start_ts_ms = se_timestamp_ms ev, ls_notes = [],
             ls_step_stats = (\<lambda>_. None), ls_fallback_events = [],
             ls_model_inference_count = 0, ls_heuristic_fallback_count = 0,
             ls_model_confidence_sum = 0, ls_model_confidence_samples = 0,
             ls_inference_latency_sum_ms = 0, ls_inference_latency_samples = 0 \<rparr>) \<rparr>"

definition handle_session_ended ::
  "(int \<Rightarrow> string) \<Rightarrow> SessionEvent \<Rightarrow> StepStatus list \<Rightarrow> UncertaintyEvent list \<Rightarrow> SessionLogger
     \<Rightarrow> SessionLogger" where
  "handle_session_ended ms_to_iso ev step_sts uncertainties lg =
     (case lg_sessions lg (se_session_id ev) of
        None \<Rightarrow> lg
      | Some st \<Rightarrow>
          (let extra = (case se_details ev of
                          EndedDetails reason duration \<Rightarrow>
                            DurationNote duration # (if reason \<noteq> [] then [ReasonNote reason] else [])
                        | StartedDetails _ \<Rightarrow> []);
               st1 = st\<lparr> ls_notes := ls_notes st @ extra \<rparr>
           in lg\<lparr> lg_sessions := (lg_sessions lg)(se_session_id ev := None),
                  lg_written := lg_written lg @
                    [build_record ms_to_iso st1 (se_timestamp_ms ev) step_sts uncertainties] \<rparr>))"

text \<open>The loop body of \<open>record_step_signals\<close> for one signal.\<close>

definition record_signal :: "SessionState \<Rightarrow> StepSignal \<Rightarrow> SessionState" where
  "record_signal st sg =
     (let stats = (case ls_step_stats st (sig_step_id sg) of None \<Rightarrow> new_stats | Some x \<Rightarrow> x);
          st1 = st\<lparr> ls_step_stats := (ls_step_stats st)(sig_step_id sg \<mapsto>
                       register (sig_source sg) (sig_confidence sg) stats) \<rparr>
      in if sig_source sg = MODEL
         then st1\<lparr> ls_model_inference_count := ls_model_inference_count st1 + 1,
                   ls_model_confidence_sum := ls_model_confidence_sum st1 + sig_confidence sg,
                   ls_model_confidence_samples := ls_model_confidence_samples st1 + 1 \<rparr>
         else st1\<lparr> ls_heuristic_fallback_count := ls_heuristic_fallback_count st1 + 1 \<rparr>)"

definition record_step_signals ::
  "string option \<Rightarrow> StepSignal list \<Rightarrow> real option \<Rightarrow> SessionLogger \<Rightarrow> SessionLogger" where
  "record_step_signals sid signals inference_latency_ms lg =
     (case sid of
        None \<Rightarrow> lg
      | Some i \<Rightarrow>
          if i = [] then lg
          else (case lg_sessions lg i of
                  None \<Rightarrow> lg
                | Some st \<Rightarrow>
                    (let st1 = foldl record_signal st signals;
                         saw_model_signal = (\<exists>sg \<in> set signals. sig_source sg = MODEL);
                         st2 = (case inference_latency_ms of
                                  None \<Rightarrow> st1
                                | Some latency \<Rightarrow>
                                    if saw_model_signal
                                    then st1\<lparr> ls_inference_latency_sum_ms :=
                                                 ls_inference_latency_sum_ms st1 + latency,
                                               ls_inference_latency_samples :=
                                                 ls_inference_latency_samples st1 + 1 \<rparr>
                                    else st1)
                     in lg\<lparr> lg_sessions := (lg_sessions lg)(i \<mapsto> st2) \<rparr>)))"


section \<open>Replay through the capture application (cli/capture.py)\<close>

text \<open>
  \<open>CaptureApp\<close> on the path \<open>run\<close> takes for \<open>--demo-asset\<close> without
  \<open>--sample-inference\<close>: signals come from the \<open>DemoSignalSynthesizer\<close>, and the session
  logger assembles a record when a session ends. Preview, recording, training export and
  console output are left out: they read the packets and write elsewhere.
\<close>

record CaptureApp =
  ca_gate :: SessionManager
  ca_interp :: Interp
  ca_synth :: DemoSignalSynthesizer
  ca_logger :: SessionLogger
  ca_minted :: nat

text \<open>What is fixed for a run besides the config: the \<open>--demo-asset\<close> id, the
  \<open>--log-steps\<close> flag, the model version found at start-up and the ISO rendering.\<close>

record CaptureSetup =
  demo_asset :: string
  log_steps :: bool
  model_version :: "string option"
  ms_to_iso :: "int \<Rightarrow> string"

text \<open>\<open>CaptureApp.__init__\<close>; an enabled LED client is reset once at start-up.\<close>

definition CaptureApp_init :: "Config \<Rightarrow> py_error + CaptureApp" where
  "CaptureApp_init cfg =
     (case SessionManager_init cfg of
        Inl e \<Rightarrow> Inl e
      | Inr m \<Rightarrow>
          (case build_default_runner cfg of
             Inl e \<Rightarrow> Inl e
           | Inr _ \<Rightarrow>
               Inr \<lparr> ca_gate = m,
                     ca_interp = Interp_init cfg
                       (if esp_enabled (esp8266 cfg)
                        then Some (reset_leds (Esp8266Client_init (esp8266 cfg))) else None),
                     ca_synth = (\<lambda>_. None),
                     ca_logger = SessionLogger_init,
                     ca_minted = 0 \<rparr>))"

text \<open>\<open>_handle_session_event\<close> for one event: the interpreter and the logger.\<close>

definition capture_handle_event ::
  "(nat \<Rightarrow> http_outcome) \<Rightarrow> Config \<Rightarrow> CaptureSetup \<Rightarrow> SessionEvent
     \<Rightarrow> Interp \<times> SessionLogger \<Rightarrow> py_error + Interp \<times> SessionLogger" where
  "capture_handle_event net cfg setup ev sl =
     (case se_type ev of
        STARTED \<Rightarrow>
          (case start_session net (se_session_id ev) (se_timestamp_ms ev) (fst sl) of
             Inl e \<Rightarrow> Inl e
           | Inr s \<Rightarrow>
               Inr (s, handle_session_started ev (roi cfg) (demo_asset setup \<noteq> [])
                         (if demo_asset setup = [] then None else Some (demo_asset setup))
                         (model_version setup) (snd sl)))
      | ENDED \<Rightarrow>
          Inr (end_session net (se_timestamp_ms ev) (fst sl),
               handle_session_ended (ms_to_iso setup) ev (snapshot (fst sl))
                 (uncertainty_events (fst sl)) (snd sl)))"

fun capture_handle_events ::
  "(nat \<Rightarrow> http_outcome) \<Rightarrow> Config \<Rightarrow> CaptureSetup \<Rightarrow> SessionEvent list
     \<Rightarrow> Interp \<times> SessionLogger \<Rightarrow> py_error + Interp \<times> SessionLogger" where
  "capture_handle_events net cfg setup [] sl = Inr sl"
| "capture_handle_events net cfg setup (ev # evs) sl =
     (case capture_handle_event net cfg setup ev sl of
        Inl e \<Rightarrow> Inl e
      | Inr sl' \<Rightarrow> capture_handle_events net cfg setup evs sl')"

definition capture_gate_frame ::
  "(nat \<Rightarrow> http_outcome) \<Rightarrow> (nat \<Rightarrow> string) \<Rightarrow> Config \<Rightarrow> CaptureSetup \<Rightarrow> FramePacket
     \<Rightarrow> CaptureApp \<Rightarrow> py_error + CaptureApp" where
  "capture_gate_frame net ids cfg setup packet app =
     (let (m, evs) = process_frame cfg (ids (ca_minted app)) packet (ca_gate app) in
      case capture_handle_events net cfg setup evs (ca_interp app, ca_logger app) of
        Inl e \<Rightarrow> Inl e
      | Inr (s, lg) \<Rightarrow>
          Inr (app\<lparr> ca_gate := m, ca_interp := s, ca_logger := lg,
                     ca_minted := ca_minted app + count_started evs \<rparr>))"

text \<open>\<open>CaptureApp._process_packet\<close>. The synthesizer runs when a session is active or
  \<open>--log-steps\<close> is set; no inference latency is measured on this path.\<close>

definition capture_process_packet ::
  "(nat \<Rightarrow> http_outcome) \<Rightarrow> (nat \<Rightarrow> string) \<Rightarrow> Config \<Rightarrow> CaptureSetup \<Rightarrow> FramePacket
     \<Rightarrow> CaptureApp \<Rightarrow> py_error + CaptureApp" where
  "capture_process_packet net ids cfg setup packet app =
     (case capture_gate_frame net ids cfg setup packet app of
        Inl e \<Rightarrow> Inl e
      | Inr app1 \<Rightarrow>
          (let needs_signals = (session_active (ca_gate app1) \<or> log_steps setup);
               (signals, syn) = (if needs_signals
                                 then (let (sigs, syn') = generate packet (ca_synth app1)
                                       in (Some sigs, syn'))
                                 else (None, ca_synth app1));
               app2 = app1\<lparr> ca_synth := syn \<rparr>
           in if session_active (ca_gate app2) then
                (case signals of
                   None \<Rightarrow> Inr app2
                 | Some sigs \<Rightarrow>
                     (let lg = record_step_signals (current_session_id (ca_gate app2)) sigs None
                                 (ca_logger app2)
                      in case process_signals net sigs (timestamp_ms packet) (ca_interp app2) of
                           Inl e \<Rightarrow> Inl e
                         | Inr s \<Rightarrow> Inr (app2\<lparr> ca_interp := s, ca_logger := lg \<rparr>)))
              else Inr app2))"

fun capture_gate_frames ::
  "(nat \<Rightarrow> http_outcome) \<Rightarrow> (nat \<Rightarrow> string) \<Rightarrow> Config \<Rightarrow> CaptureSetup \<Rightarrow> FramePacket list
     \<Rightarrow> CaptureApp \<Rightarrow> py_error + CaptureApp" where
  "capture_gate_frames net ids cfg setup [] app = Inr app"
| "capture_gate_frames net ids cfg setup (p # ps) app =
     (case capture_gate_frame net ids cfg setup p app of
        Inl e \<Rightarrow> Inl e
      | Inr app' \<Rightarrow> capture_gate_frames net ids cfg setup ps app')"

fun capture_process_packets ::
  "(nat \<Rightarrow> http_outcome) \<Rightarrow> (nat \<Rightarrow> string) \<Rightarrow> Config \<Rightarrow> CaptureSetup \<Rightarrow> FramePacket list
     \<Rightarrow> CaptureApp \<Rightarrow> py_error + CaptureApp" where
  "capture_process_packets net ids cfg setup [] app = Inr app"
| "capture_process_packets net ids cfg setup (p # ps) app =
     (case capture_process_packet net ids cfg setup p app of
        Inl e \<Rightarrow> Inl e
      | Inr app' \<Rightarrow> capture_process_packets net ids cfg setup ps app')"

definition capture_reset ::
  "(nat \<Rightarrow> http_outcome) \<Rightarrow> Config \<Rightarrow> CaptureSetup \<Rightarrow> CaptureApp \<Rightarrow> py_error + CaptureApp" where
  "capture_reset net cfg setup app =
     (let (m, evs) = gate_reset cfg (ca_gate app) in
      case capture_handle_events net cfg setup evs (ca_interp app, ca_logger app) of
        Inl e \<Rightarrow> Inl e
      | Inr (s, lg) \<Rightarrow> Inr (app\<lparr> ca_gate := m, ca_interp := s, ca_logger := lg \<rparr>))"

text \<open>
  \<open>_run_demo_asset\<close> on a loaded manifest: gate priming, packet streaming with the
  boost, signal synthesis, interpretation, and at the closing reset the record assembly.
  The result is the session records appended to the log, in order.
\<close>

definition capture_demo_records ::
  "(nat \<Rightarrow> http_outcome) \<Rightarrow> (nat \<Rightarrow> string) \<Rightarrow> Config \<Rightarrow> CaptureSetup \<Rightarrow> DemoManifest
     \<Rightarrow> py_error + SessionRecord list" where
  "capture_demo_records net ids cfg setup manifest =
     (case CaptureApp_init cfg of
        Inl e \<Rightarrow> Inl e
      | Inr app \<Rightarrow>
          (case capture_gate_frames net ids cfg setup (prime_packets cfg) app of
             Inl e \<Rightarrow> Inl e
           | Inr app1 \<Rightarrow>
               (case stream_packets manifest cfg (demo_asset setup) of
                  Inl e \<Rightarrow> Inl e
                | Inr packets \<Rightarrow>
                    (case capture_process_packets net ids cfg setup
                            (map (\<lambda>p. boost_demo_packet p cfg) packets) app1 of
                       Inl e \<Rightarrow> Inl e
                     | Inr app2 \<Rightarrow>
                         (case capture_reset net cfg setup app2 of
                            Inl e \<Rightarrow> Inl e
                          | Inr app3 \<Rightarrow> Inr (lg_written (ca_logger app3)))))))"

text \<open>A record with the three fields the claim exempts blanked.\<close>

definition erase_session_fields :: "SessionRecord \<Rightarrow> SessionRecord" where
  "erase_session_fields r = r\<lparr> rec_session_id := [], rec_start_ts := [], rec_end_ts := [] \<rparr>"

text \<open>
  Two states of the application that differ at most in the session ids, the LED side and
  the emitted events: the relation two replays of one asset keep.
\<close>

definition logger_state_rel :: "SessionState \<Rightarrow> SessionState \<Rightarrow> bool" where
  "logger_state_rel a b \<longleftrightarrow> a\<lparr> ls_session_id := [] \<rparr> = b\<lparr> ls_session_id := [] \<rparr>"

definition interp_rel :: "Interp \<Rightarrow> Interp \<Rightarrow> bool" where
  "interp_rel s t \<longleftrightarrow>
     interp_wf s \<and> interp_wf t
     \<and> step_thresholds s = step_thresholds t \<and> step_order s = step_order t
     \<and> truthy (session_id s) = truthy (session_id t)
     \<and> step_statuses s = step_statuses t
     \<and> last_confident_ts s = last_confident_ts t
     \<and> uncertainty_events s = uncertainty_events t"

definition gate_rel :: "SessionManager \<Rightarrow> SessionManager \<Rightarrow> bool" where
  "gate_rel m n \<longleftrightarrow>
     start_window m = start_window n \<and> maxlen m = maxlen n
     \<and> session_active m = session_active n
     \<and> session_start_ts m = session_start_ts n
     \<and> last_active_ts m = last_active_ts n
     \<and> (current_session_id m = None) = (current_session_id n = None)"

definition app_rel :: "CaptureApp \<Rightarrow> CaptureApp \<Rightarrow> bool" where
  "app_rel a b \<longleftrightarrow>
     gate_rel (ca_gate a) (ca_gate b)
     \<and> interp_rel (ca_interp a) (ca_interp b)
     \<and> ca_synth a = ca_synth b
     \<and> map erase_session_fields (lg_written (ca_logger a))
         = map erase_session_fields (lg_written (ca_logger b))
     \<and> (session_active (ca_gate a) \<longrightarrow>
          truthy (session_id (ca_interp a)) \<and> truthy (session_id (ca_interp b))
          \<and> (\<exists>i j x y. current_session_id (ca_gate a) = Some i \<and> i \<noteq> []
                \<and> current_session_id (ca_gate b) = Some j \<and> j \<noteq> []
                \<and> session_start_ts (ca_gate a) \<noteq> None
                \<and> lg_sessions (ca_logger a) i = Some x
                \<and> lg_sessions (ca_logger b) j = Some y
                \<and> logger_state_rel x y))"

section \<open>Concrete inputs used by the witnesses and counterexamples\<close>

definition wc :: Esp8266Client where
  "wc = led_start_session ''s1'' (Esp8266Client_init \<lparr> esp_enabled = True, esp_timeout_ms = 500, esp_blink_hz = 1 \<rparr>)"

definition wnet :: "nat \<Rightarrow> http_outcome" where
  "wnet n = RequestException ''ConnectionError: unreachable''"

definition wc1 :: Esp8266Client where
  "wc1 = snd (publish wnet STEP_3 LED_CURRENT 10 wc)"

definition wcalls where "wcalls = [Publish STEP_3 LED_CURRENT 20, EndSession, Publish STEP_4 LED_IDLE 30]"

text \<open>A configuration with every step at 300 ms, as in the integration tests.\<close>

definition wsteps :: "string \<Rightarrow> StepThreshold option" where
  "wsteps name =
     (if name \<in> set (map step_value VALID_STEP_IDS)
      then Some \<lparr> duration_ms = 300, confidence_min = 1/2, orientation_hint = None \<rparr>
      else None)"

definition wcfg :: Config where
  "wcfg = \<lparr> config_version = ''test-config'',
            roi = \<lparr> roi_x = 0, roi_y = 0, roi_width = 400, roi_height = 300 \<rparr>,
            session = \<lparr> motion_threshold = 2/5, relative_motion_threshold = 3/10,
                        start_window_frames = 3, stop_timeout_ms = 500, min_hands = 2,
                        require_motion = True \<rparr>,
            steps = wsteps,
            esp8266 = \<lparr> esp_enabled = False, esp_timeout_ms = 500, esp_blink_hz = 1 \<rparr> \<rparr>"

definition wsig :: "StepID \<Rightarrow> int \<Rightarrow> StepSignal" where
  "wsig k t = \<lparr> sig_step_id = k, sig_orientation = NONE, sig_confidence = 9/10,
                is_confident = True, sig_timestamp_ms = t, sig_source = MODEL,
                sig_notes = None \<rparr>"

definition wops1 :: "interp_op list" where
  "wops1 = [OpStartSession ''s1'' 200,
            OpProcessSignals [wsig STEP_2 300] 300,
            OpProcessSignals [wsig STEP_2 450] 450]"

definition wops2 :: "interp_op list" where
  "wops2 = wops1 @ [OpProcessSignals [wsig STEP_2 600] 600]"

definition wlater :: "interp_op list" where
  "wlater = [OpProcessSignals [wsig STEP_2 700] 700, OpEndSession 800]"

definition wops3 :: "interp_op list" where
  "wops3 = [OpStartSession ''s1'' 0,
            OpProcessSignals [wsig STEP_3 0] 0,
            OpProcessSignals [wsig STEP_3 150] 150]"

text \<open>Frames as the unit tests of the session gate build them.\<close>

definition wpacket :: "int \<Rightarrow> real \<Rightarrow> real \<Rightarrow> int \<Rightarrow> FramePacket" where
  "wpacket ts mv rm hands =
     \<lparr> frame_id = ts div 33, timestamp_ms = ts,
       fp_roi = \<lparr> roi_x = 0, roi_y = 0, roi_width = 400, roi_height = 300 \<rparr>,
       fp_config_version = ''test-config'',
       motion = \<lparr> mean_velocity = mv, relative_motion = rm \<rparr>,
       metadata = (\<lambda>key. if key = ''hand_count'' \<or> key = ''hands_in_roi''
                          then Some (PInt hands) else None) \<rparr>"

definition wids :: "nat \<Rightarrow> string" where
  "wids i = ''session-'' @ replicate i CHR ''x''"

definition wstart_packets :: "FramePacket list" where
  "wstart_packets = [wpacket 0 (3/5) (7/20) 1, wpacket 100 (3/5) (7/20) 2,
                     wpacket 200 (3/5) (7/20) 2, wpacket 300 (3/5) (7/20) 2]"

definition wactive_ops :: "gate_op list" where
  "wactive_ops = [Frame ''a'' (wpacket 0 (7/10) (2/5) 2), Frame ''b'' (wpacket 100 (7/10) (2/5) 2),
                  Frame ''c'' (wpacket 200 (7/10) (2/5) 2), Frame ''d'' (wpacket 400 (1/10) (1/20) 2),
                  Frame ''e'' (wpacket 500 (1/10) (1/20) 2)]"

text \<open>A session started at 1000, then a \<open>gate_ok\<close> frame stamped 100: a clock that
  stepped back.\<close>

definition wback_ops :: "gate_op list" where
  "wback_ops = [Frame ''a'' (wpacket 800 (7/10) (2/5) 2), Frame ''b'' (wpacket 900 (7/10) (2/5) 2),
                Frame ''c'' (wpacket 1000 (7/10) (2/5) 2), Frame ''d'' (wpacket 100 (7/10) (2/5) 2)]"

definition wmeta_packet :: FramePacket where
  "wmeta_packet = (wpacket 0 (3/5) (7/20) 2)
     \<lparr> metadata := (\<lambda>key. if key = ''hand_count'' then Some (PInt 2)
                           else if key = ''hands_in_roi'' then Some (PStr ''two'') else None) \<rparr>"

text \<open>An asset at 4000 frames per second, which \<open>load_manifest\<close> accepts.\<close>

definition wfast_asset :: DemoAsset where
  "wfast_asset = \<lparr> asset_id = ''fast'', fps = float_of_nat 4000, total_frames = 3, annotations = [],
                    asset_roi = None \<rparr>"




text \<open>An asset whose two annotations of one step differ in orientation.\<close>

definition wtwo_asset :: DemoAsset where
  "wtwo_asset = \<lparr> asset_id = ''two'', fps = float_of_nat 5, total_frames = 2,
                   annotations = [\<lparr> an_step_id = STEP_3, an_orientation = LEFT_OVER_RIGHT,
                                    start_ms = 0, end_ms = 400 \<rparr>,
                                  \<lparr> an_step_id = STEP_3, an_orientation = RIGHT_OVER_LEFT,
                                    start_ms = 400, end_ms = 800 \<rparr>],
                   asset_roi = None \<rparr>"

definition wtwo_manifest :: DemoManifest where
  "wtwo_manifest = \<lparr> version = ''0.1.0'', assets = (\<lambda>_. None)(''two'' \<mapsto> wtwo_asset) \<rparr>"

definition wtwo_snapshot :: "StepStatus list" where
  "wtwo_snapshot =
     [new_status STEP_2,
      \<lparr> step_id = STEP_3, orientation = LEFT_OVER_RIGHT, state = COMPLETED,
        accumulated_ms = 400, completed_ts = Some 400, uncertainty_count = 0 \<rparr>,
      new_status STEP_4, new_status STEP_5, new_status STEP_6, new_status STEP_7]"

text \<open>An asset with one annotation that the replay completes.\<close>

definition wone_asset :: DemoAsset where
  "wone_asset = \<lparr> asset_id = ''one'', fps = float_of_nat 5, total_frames = 2,
                   annotations = [\<lparr> an_step_id = STEP_2, an_orientation = NONE,
                                    start_ms = 0, end_ms = 400 \<rparr>],
                   asset_roi = None \<rparr>"

definition wone_manifest :: DemoManifest where
  "wone_manifest = \<lparr> version = ''0.1.0'', assets = (\<lambda>_. None)(''one'' \<mapsto> wone_asset) \<rparr>"

definition wone_snapshot :: "StepStatus list" where
  "wone_snapshot =
     [\<lparr> step_id = STEP_2, orientation = NONE, state = COMPLETED,
        accumulated_ms = 400, completed_ts = Some 400, uncertainty_count = 0 \<rparr>,
      new_status STEP_3, new_status STEP_4, new_status STEP_5, new_status STEP_6,
      new_status STEP_7]"

section \<open>LED client: failure, self-disable and recovery\<close>

lemma publish_when_disabled:
  "cl_disabled c \<Longrightarrow> publish net k st ts c = (False, c)"
  by (simp add: publish_def)

lemma led_calls_when_disabled:
  "cl_disabled c \<Longrightarrow> led_calls net calls c = (rs, c') \<Longrightarrow>
     True \<notin> set rs \<and> cl_requests c' = cl_requests c \<and> cl_disabled c'
     \<and> cfg_enabled c' = cfg_enabled c
     \<and> length rs = length (filter (\<lambda>x. x \<noteq> EndSession) calls)"
proof (induction calls arbitrary: c rs c')
  case Nil
  then show ?case by simp
next
  case (Cons x xs)
  show ?case
  proof (cases x)
    case (Publish k st ts)
    obtain rs2 c2 where r2: "led_calls net xs c = (rs2, c2)" by (cases "led_calls net xs c")
    from Cons.prems Publish r2 have "rs = False # rs2" "c' = c2"
      by (simp_all add: publish_when_disabled)
    with Cons.IH[OF Cons.prems(1) r2] Publish show ?thesis by simp
  next
    case EndSession
    let ?c1 = "led_end_session c"
    have d: "cl_disabled ?c1" using Cons.prems(1) by (simp add: led_end_session_def)
    obtain rs2 c2 where r2: "led_calls net xs ?c1 = (rs2, c2)" by (cases "led_calls net xs ?c1")
    from Cons.prems EndSession r2 have "rs = rs2" "c' = c2" by simp_all
    with Cons.IH[OF d r2] EndSession show ?thesis by (simp add: led_end_session_def)
  qed
qed

text \<open>
  Claim C8. A \<open>publish\<close> that reaches the HTTP POST (client enabled, not disabled, in a
  session, state not a duplicate) and meets a transport error returns \<open>False\<close>, sets
  \<open>disabled\<close> and records the reason. Whatever \<open>publish\<close> and \<open>end_session\<close> calls
  follow, every such \<open>publish\<close> returns \<open>False\<close> and the request log does not grow. The
  next \<open>start_session\<close> posts the reset, clears the error and the per-step states and
  re-enables the client: with a non-empty session id the next \<open>publish\<close> issues a request.
\<close>

theorem publish_failure_disables_until_start_session:
  assumes reach: "cfg_enabled c" "\<not> cl_disabled c" "truthy (cl_session_id c)"
                 "cl_last_states c k \<noteq> Some st"
      and fail: "net (length (cl_requests c)) = RequestException reason"
      and pub: "publish net k st ts c = (r, c1)"
      and later: "led_calls net calls c1 = (rs, c2)"
  shows "\<not> r \<and> cl_disabled c1 \<and> cl_last_error c1 = Some reason
       \<and> cl_requests c1 = cl_requests c @ [PostSignal (build_payload c k st ts)]
       \<and> True \<notin> set rs
       \<and> length rs = length (filter (\<lambda>x. x \<noteq> EndSession) calls)
       \<and> cl_requests c2 = cl_requests c1
       \<and> cl_disabled c2
       \<and> \<not> cl_disabled (led_start_session sid c2)
       \<and> cl_last_error (led_start_session sid c2) = None
       \<and> cl_last_states (led_start_session sid c2) = (\<lambda>_. None)
       \<and> cl_session_id (led_start_session sid c2) = Some sid
       \<and> cl_requests (led_start_session sid c2) = cl_requests c2 @ [PostReset]
       \<and> (sid \<noteq> [] \<longrightarrow>
            cl_requests (snd (publish net k' st' ts' (led_start_session sid c2)))
              = cl_requests c2 @ [PostReset,
                  PostSignal (build_payload (led_start_session sid c2) k' st' ts')])"
proof -
  from reach fail pub have c1: "r = False"
      "c1 = disable reason (c\<lparr> cl_requests := cl_requests c @ [PostSignal (build_payload c k st ts)] \<rparr>)"
    by (auto simp: publish_def Let_def)
  with reach have d1: "cl_disabled c1" "cl_last_error c1 = Some reason"
     "cl_requests c1 = cl_requests c @ [PostSignal (build_payload c k st ts)]" "cfg_enabled c1"
    by (simp_all add: disable_def)
  note l = led_calls_when_disabled[OF d1(1) later]
  from l d1 have en2: "cfg_enabled c2" by simp
  let ?c3 = "led_start_session sid c2"
  have c3: "\<not> cl_disabled ?c3" "cl_last_error ?c3 = None" "cl_last_states ?c3 = (\<lambda>_. None)"
      "cl_session_id ?c3 = Some sid" "cl_requests ?c3 = cl_requests c2 @ [PostReset]" "cfg_enabled ?c3"
    using en2 by (simp_all add: led_start_session_def reset_leds_def)
  have p3: "sid \<noteq> [] \<longrightarrow> cl_requests (snd (publish net k' st' ts' ?c3))
              = cl_requests c2 @ [PostReset, PostSignal (build_payload ?c3 k' st' ts')]"
    using c3 by (auto simp: publish_def Let_def disable_def split: http_outcome.splits)
  show ?thesis using c1(1) d1 l c3 p3 by simp
qed


theorem publish_failure_disables_until_start_session_witness:
  "cfg_enabled wc \<and> \<not> cl_disabled wc \<and> truthy (cl_session_id wc)
   \<and> cl_last_states wc STEP_3 \<noteq> Some LED_CURRENT
   \<and> wnet (length (cl_requests wc)) = RequestException ''ConnectionError: unreachable''
   \<and> publish wnet STEP_3 LED_CURRENT 10 wc = (False, wc1)
   \<and> cl_disabled wc1 \<and> cl_last_error wc1 = Some ''ConnectionError: unreachable''
   \<and> fst (led_calls wnet wcalls wc1) = [False, False]
   \<and> cl_requests (snd (led_calls wnet wcalls wc1)) = cl_requests wc1
   \<and> \<not> cl_disabled (led_start_session ''s2'' (snd (led_calls wnet wcalls wc1)))"
proof -
  have h1: "cfg_enabled wc" "\<not> cl_disabled wc" "truthy (cl_session_id wc)"
           "cl_last_states wc STEP_3 \<noteq> Some LED_CURRENT"
    by (simp_all add: wc_def led_start_session_def reset_leds_def Esp8266Client_init_def)
  have h2: "wnet (length (cl_requests wc)) = RequestException ''ConnectionError: unreachable''"
    by (simp add: wnet_def)
  have h3: "publish wnet STEP_3 LED_CURRENT 10 wc = (False, wc1)"
    using h1 by (simp add: wc1_def publish_def wnet_def Let_def)
  obtain rs c2 where h4: "led_calls wnet wcalls wc1 = (rs, c2)"
    by (cases "led_calls wnet wcalls wc1")
  note t = publish_failure_disables_until_start_session
             [OF h1 h2 h3 h4, of "''s2''" STEP_2 LED_CURRENT 40]
  from t have "length rs = 2" "True \<notin> set rs" by (simp_all add: wcalls_def)
  then have "rs = [False, False]"
    by (cases rs; cases "tl rs"; auto)
  with t h1 h2 h3 h4 show ?thesis by simp
qed


section \<open>Interpreter: what the event and LED helpers leave alone\<close>

lemma emit_event_core [simp]:
  "step_thresholds (emit_event ty ts k st det s) = step_thresholds s"
  "step_order (emit_event ty ts k st det s) = step_order s"
  "session_id (emit_event ty ts k st det s) = session_id s"
  "step_statuses (emit_event ty ts k st det s) = step_statuses s"
  "last_confident_ts (emit_event ty ts k st det s) = last_confident_ts s"
  "uncertainty_events (emit_event ty ts k st det s) = uncertainty_events s"
  "active_step_id (emit_event ty ts k st det s) = active_step_id s"
  "led_client (emit_event ty ts k st det s) = led_client s"
  "led_states (emit_event ty ts k st det s) = led_states s"
  "last_published (emit_event ty ts k st det s) = last_published s"
  by (simp_all add: emit_event_def split: option.splits)

lemma send_led_signal_core [simp]:
  "step_thresholds (send_led_signal net k st ts force s) = step_thresholds s"
  "step_order (send_led_signal net k st ts force s) = step_order s"
  "session_id (send_led_signal net k st ts force s) = session_id s"
  "step_statuses (send_led_signal net k st ts force s) = step_statuses s"
  "last_confident_ts (send_led_signal net k st ts force s) = last_confident_ts s"
  "uncertainty_events (send_led_signal net k st ts force s) = uncertainty_events s"
  "active_step_id (send_led_signal net k st ts force s) = active_step_id s"
  "last_published (send_led_signal net k st ts force s) = last_published s"
  by (simp_all add: send_led_signal_def Let_def split: option.splits prod.splits)

lemma sync_led_active_core [simp]:
  "step_thresholds (sync_led_active net p c ts s) = step_thresholds s"
  "step_order (sync_led_active net p c ts s) = step_order s"
  "session_id (sync_led_active net p c ts s) = session_id s"
  "step_statuses (sync_led_active net p c ts s) = step_statuses s"
  "last_confident_ts (sync_led_active net p c ts s) = last_confident_ts s"
  "uncertainty_events (sync_led_active net p c ts s) = uncertainty_events s"
  "active_step_id (sync_led_active net p c ts s) = active_step_id s"
  "last_published (sync_led_active net p c ts s) = last_published s"
  by (simp_all add: sync_led_active_def Let_def split: option.splits)

lemma emit_active_step_core [simp]:
  "step_thresholds (emit_active_step net ts p s) = step_thresholds s"
  "step_order (emit_active_step net ts p s) = step_order s"
  "session_id (emit_active_step net ts p s) = session_id s"
  "step_statuses (emit_active_step net ts p s) = step_statuses s"
  "last_confident_ts (emit_active_step net ts p s) = last_confident_ts s"
  "uncertainty_events (emit_active_step net ts p s) = uncertainty_events s"
  "active_step_id (emit_active_step net ts p s) = active_step_id s"
  "last_published (emit_active_step net ts p s) = last_published s"
  by (simp_all add: emit_active_step_def)

lemma set_active_step_core [simp]:
  "step_thresholds (set_active_step net k ts s) = step_thresholds s"
  "step_order (set_active_step net k ts s) = step_order s"
  "session_id (set_active_step net k ts s) = session_id s"
  "step_statuses (set_active_step net k ts s) = step_statuses s"
  "last_confident_ts (set_active_step net k ts s) = last_confident_ts s"
  "uncertainty_events (set_active_step net k ts s) = uncertainty_events s"
  "last_published (set_active_step net k ts s) = last_published s"
  by (simp_all add: set_active_step_def)

lemma record_uncertainty_core [simp]:
  "step_thresholds (record_uncertainty r ts d s) = step_thresholds s"
  "step_order (record_uncertainty r ts d s) = step_order s"
  "session_id (record_uncertainty r ts d s) = session_id s"
  "step_statuses (record_uncertainty r ts d s) = step_statuses s"
  "last_confident_ts (record_uncertainty r ts d s) = last_confident_ts s"
  "active_step_id (record_uncertainty r ts d s) = active_step_id s"
  "last_published (record_uncertainty r ts d s) = last_published s"
  by (simp_all add: record_uncertainty_def)

lemma record_uncertainty_events:
  "truthy (session_id s) \<Longrightarrow>
   uncertainty_events (record_uncertainty r ts d s) =
     uncertainty_events s @ [\<lparr> ue_timestamp_ms = ts, ue_reason = r, ue_details = d \<rparr>]"
  by (simp add: record_uncertainty_def)

lemma publish_status_core:
  assumes "publish_status net status ts force s = Inr s'"
  shows "step_thresholds s' = step_thresholds s" "step_order s' = step_order s"
    "session_id s' = session_id s" "step_statuses s' = step_statuses s"
    "last_confident_ts s' = last_confident_ts s" "uncertainty_events s' = uncertainty_events s"
    "active_step_id s' = active_step_id s"
  using assms
  by (auto simp: publish_status_def Let_def split: if_splits option.splits)

lemma publish_status_total:
  "step_thresholds s (step_id status) \<noteq> None \<Longrightarrow>
   \<exists>s'. publish_status net status ts force s = Inr s'"
  by (auto simp: publish_status_def Let_def split: if_splits option.splits)


section \<open>Interpreter: one step update\<close>

lemma confident_update_status:
  assumes "state status \<noteq> COMPLETED"
  shows "fst (confident_update sg status th s) =
     (let acc = accumulated_ms status + dwell_delta (last_confident_ts s (step_id status)) (sig_timestamp_ms sg)
      in status\<lparr> orientation := (if sig_orientation sg \<noteq> NONE then sig_orientation sg else orientation status),
                 state := (if acc \<ge> duration_ms th then COMPLETED else IN_PROGRESS),
                 accumulated_ms := acc,
                 completed_ts := (if acc \<ge> duration_ms th then Some (sig_timestamp_ms sg) else completed_ts status) \<rparr>)"
  using assms
  by (cases "state status"; cases "last_confident_ts s (step_id status)")
     (auto simp: confident_update_def dwell_delta_def Let_def max_def)

lemma confident_update_state:
  assumes "state status \<noteq> COMPLETED"
  shows "snd (confident_update sg status th s) =
     s\<lparr> last_confident_ts := (last_confident_ts s)(step_id status :=
          (if accumulated_ms status + dwell_delta (last_confident_ts s (step_id status)) (sig_timestamp_ms sg)
               \<ge> duration_ms th then None else Some (sig_timestamp_ms sg))) \<rparr>"
  using assms
  by (cases "state status"; cases "last_confident_ts s (step_id status)")
     (auto simp: confident_update_def dwell_delta_def Let_def max_def)

lemma unconfident_update_status:
  "fst (unconfident_update status ts s) =
     (if state status = IN_PROGRESS
      then status\<lparr> state := UNCERTAIN, uncertainty_count := uncertainty_count status + 1 \<rparr>
      else status)"
  by (simp add: unconfident_update_def Let_def)

lemma unconfident_update_core [simp]:
  "step_thresholds (snd (unconfident_update status ts s)) = step_thresholds s"
  "step_order (snd (unconfident_update status ts s)) = step_order s"
  "session_id (snd (unconfident_update status ts s)) = session_id s"
  "step_statuses (snd (unconfident_update status ts s)) = step_statuses s"
  "active_step_id (snd (unconfident_update status ts s)) = active_step_id s"
  "last_confident_ts (snd (unconfident_update status ts s)) = (last_confident_ts s)(step_id status := None)"
  by (simp_all add: unconfident_update_def Let_def)

lemma unconfident_update_events:
  "truthy (session_id s) \<Longrightarrow>
   uncertainty_events (snd (unconfident_update status ts s)) =
     uncertainty_events s @
       (if state status = IN_PROGRESS then [low_confidence_event ts (step_id status)] else [])"
  by (simp add: unconfident_update_def Let_def record_uncertainty_events low_confidence_event_def)

lemma update_step_completed:
  "state status = COMPLETED \<Longrightarrow> update_step net slot status th signal ts s = Inr s"
  by (simp add: update_step_def)

lemma publish_or_keep:
  assumes "step_thresholds s2 (step_id status') \<noteq> None"
  shows "\<exists>s'. (if changed then publish_status net status' ts False s2 else Inr s2) = Inr s'
     \<and> step_thresholds s' = step_thresholds s2 \<and> step_order s' = step_order s2
     \<and> session_id s' = session_id s2 \<and> step_statuses s' = step_statuses s2
     \<and> last_confident_ts s' = last_confident_ts s2
     \<and> uncertainty_events s' = uncertainty_events s2"
proof (cases changed)
  case True
  from publish_status_total[OF assms] obtain s' where p: "publish_status net status' ts False s2 = Inr s'"
    by blast
  from publish_status_core[OF p] p True show ?thesis by simp
next
  case False
  then show ?thesis by simp
qed

lemma update_step_confident:
  assumes nc: "state status \<noteq> COMPLETED" and sid: "step_id status = slot"
      and th: "step_thresholds s slot \<noteq> None" and conf: "is_confident sg"
  shows "\<exists>s'. update_step net slot status threshold (Some sg) ts s = Inr s'
     \<and> step_thresholds s' = step_thresholds s \<and> step_order s' = step_order s
     \<and> session_id s' = session_id s
     \<and> uncertainty_events s' = uncertainty_events s
     \<and> step_statuses s' = (step_statuses s)(slot \<mapsto> fst (confident_update sg status threshold s))
     \<and> last_confident_ts s' = last_confident_ts (snd (confident_update sg status threshold s))"
proof -
  obtain status' s1 where cu: "confident_update sg status threshold s = (status', s1)"
    by (cases "confident_update sg status threshold s")
  from confident_update_status[OF nc, of sg threshold s] cu
  have sid': "step_id status' = slot" by (simp add: Let_def sid)
  from confident_update_state[OF nc, of sg threshold s] cu
  have s1: "step_thresholds s1 = step_thresholds s" "step_order s1 = step_order s"
      "session_id s1 = session_id s" "uncertainty_events s1 = uncertainty_events s"
      "step_statuses s1 = step_statuses s"
    by simp_all
  let ?s2 = "s1\<lparr> step_statuses := (step_statuses s1)(slot \<mapsto> status') \<rparr>"
  have "step_thresholds ?s2 (step_id status') \<noteq> None" using th s1 sid' by simp
  from publish_or_keep[OF this, of "state status' \<noteq> state status
                        \<or> accumulated_ms status' \<noteq> accumulated_ms status
                        \<or> orientation status' \<noteq> orientation status" net ts]
  obtain s' where r: "(if state status' \<noteq> state status
                        \<or> accumulated_ms status' \<noteq> accumulated_ms status
                        \<or> orientation status' \<noteq> orientation status
        then publish_status net status' ts False ?s2 else Inr ?s2) = Inr s'"
     and c: "step_thresholds s' = step_thresholds ?s2" "step_order s' = step_order ?s2"
      "session_id s' = session_id ?s2" "step_statuses s' = step_statuses ?s2"
      "last_confident_ts s' = last_confident_ts ?s2"
      "uncertainty_events s' = uncertainty_events ?s2"
    by blast
  have "update_step net slot status threshold (Some sg) ts s = Inr s'"
    using nc conf cu r by (simp add: update_step_def Let_def)
  with c s1 cu show ?thesis by simp
qed

lemma update_step_unconfident:
  assumes nc: "state status \<noteq> COMPLETED" and sid: "step_id status = slot"
      and th: "step_thresholds s slot \<noteq> None"
      and unconf: "signal = None \<or> (\<exists>sg. signal = Some sg \<and> \<not> is_confident sg)"
      and sess: "truthy (session_id s)"
  shows "\<exists>s'. update_step net slot status threshold signal ts s = Inr s'
     \<and> step_thresholds s' = step_thresholds s \<and> step_order s' = step_order s
     \<and> session_id s' = session_id s
     \<and> uncertainty_events s' = uncertainty_events s @
          (if state status = IN_PROGRESS then [low_confidence_event ts slot] else [])
     \<and> step_statuses s' = (step_statuses s)(slot \<mapsto> fst (unconfident_update status ts s))
     \<and> last_confident_ts s' = (last_confident_ts s)(slot := None)"
proof -
  obtain status' s1 where cu: "unconfident_update status ts s = (status', s1)"
    by (cases "unconfident_update status ts s")
  from unconfident_update_status[of status ts s] cu
  have sid': "step_id status' = slot" by (auto simp: sid split: if_splits)
  from unconfident_update_core[of status ts s] unconfident_update_events[OF sess, of status ts] cu
  have s1: "step_thresholds s1 = step_thresholds s" "step_order s1 = step_order s"
      "session_id s1 = session_id s"
      "uncertainty_events s1 = uncertainty_events s @
          (if state status = IN_PROGRESS then [low_confidence_event ts slot] else [])"
      "step_statuses s1 = step_statuses s"
      "last_confident_ts s1 = (last_confident_ts s)(slot := None)"
    by (simp_all add: sid)
  let ?s2 = "s1\<lparr> step_statuses := (step_statuses s1)(slot \<mapsto> status') \<rparr>"
  have "step_thresholds ?s2 (step_id status') \<noteq> None" using th s1 sid' by simp
  from publish_or_keep[OF this, of "state status' \<noteq> state status
                        \<or> accumulated_ms status' \<noteq> accumulated_ms status
                        \<or> orientation status' \<noteq> orientation status" net ts]
  obtain s' where r: "(if state status' \<noteq> state status
                        \<or> accumulated_ms status' \<noteq> accumulated_ms status
                        \<or> orientation status' \<noteq> orientation status
        then publish_status net status' ts False ?s2 else Inr ?s2) = Inr s'"
     and c: "step_thresholds s' = step_thresholds ?s2" "step_order s' = step_order ?s2"
      "session_id s' = session_id ?s2" "step_statuses s' = step_statuses ?s2"
      "last_confident_ts s' = last_confident_ts ?s2"
      "uncertainty_events s' = uncertainty_events ?s2"
    by blast
  have "update_step net slot status threshold signal ts s = Inr s'"
    using nc unconf cu r by (auto simp: update_step_def Let_def)
  with c s1 cu show ?thesis by simp
qed

lemma confident_update_ok:
  assumes "state status \<noteq> COMPLETED" "status_ok (Some threshold) status"
  shows "status_ok (Some threshold) (fst (confident_update sg status threshold s))"
  using assms
  by (simp add: confident_update_status Let_def status_ok_def dwell_delta_def split: option.splits)

lemma unconfident_update_ok:
  assumes "state status \<noteq> COMPLETED" "status_ok th status"
  shows "status_ok th (fst (unconfident_update status ts s))"
  using assms by (simp add: unconfident_update_status status_ok_def)

lemma update_step_frame:
  assumes a: "step_statuses s slot = Some status" "step_id status = slot"
             "step_thresholds s slot = Some threshold" "truthy (session_id s)"
  shows "\<exists>s' st'. update_step net slot status threshold signal ts s = Inr s'
     \<and> step_thresholds s' = step_thresholds s \<and> step_order s' = step_order s
     \<and> session_id s' = session_id s
     \<and> step_statuses s' = (step_statuses s)(slot \<mapsto> st') \<and> step_id st' = slot
     \<and> (\<forall>j. j \<noteq> slot \<longrightarrow> last_confident_ts s' j = last_confident_ts s j)
     \<and> (status_ok (Some threshold) status \<longrightarrow> status_ok (Some threshold) st')
     \<and> (state status = COMPLETED \<longrightarrow> st' = status)
     \<and> uncertainty_events s' = uncertainty_events s @
          (if state status = IN_PROGRESS \<and> \<not> (case signal of None \<Rightarrow> False | Some sg \<Rightarrow> is_confident sg)
           then [low_confidence_event ts slot] else [])"
proof -
  have th: "step_thresholds s slot \<noteq> None" using a by simp
  consider (fin) "state status = COMPLETED"
    | (conf) sg where "state status \<noteq> COMPLETED" "signal = Some sg" "is_confident sg"
    | (unconf) "state status \<noteq> COMPLETED" "signal = None \<or> (\<exists>sg. signal = Some sg \<and> \<not> is_confident sg)"
    by (cases signal) auto
  then show ?thesis
  proof cases
    case fin
    have "(step_statuses s)(slot \<mapsto> status) = step_statuses s" using a by (simp add: fun_upd_idem)
    with fin a(2) show ?thesis by (simp add: update_step_completed)
  next
    case conf
    from update_step_confident[OF conf(1) a(2) th conf(3), of net threshold ts]
    obtain s' where r: "update_step net slot status threshold (Some sg) ts s = Inr s'"
      "step_thresholds s' = step_thresholds s" "step_order s' = step_order s"
      "session_id s' = session_id s" "uncertainty_events s' = uncertainty_events s"
      "step_statuses s' = (step_statuses s)(slot \<mapsto> fst (confident_update sg status threshold s))"
      "last_confident_ts s' = last_confident_ts (snd (confident_update sg status threshold s))"
      by blast
    have i: "step_id (fst (confident_update sg status threshold s)) = slot"
      using a by (simp add: confident_update_status[OF conf(1)] Let_def)
    have l: "\<forall>j. j \<noteq> slot \<longrightarrow> last_confident_ts s' j = last_confident_ts s j"
      using r(7) a(2) by (simp add: confident_update_state[OF conf(1)])
    show ?thesis using r i l conf confident_update_ok[OF conf(1)] by auto
  next
    case unconf
    from update_step_unconfident[OF unconf(1) a(2) th unconf(2) a(4), of net threshold ts]
    obtain s' where r: "update_step net slot status threshold signal ts s = Inr s'"
      "step_thresholds s' = step_thresholds s" "step_order s' = step_order s"
      "session_id s' = session_id s"
      "uncertainty_events s' = uncertainty_events s @
          (if state status = IN_PROGRESS then [low_confidence_event ts slot] else [])"
      "step_statuses s' = (step_statuses s)(slot \<mapsto> fst (unconfident_update status ts s))"
      "last_confident_ts s' = (last_confident_ts s)(slot := None)"
      by blast
    have i: "step_id (fst (unconfident_update status ts s)) = slot"
      using a by (simp add: unconfident_update_status)
    have e: "(case signal of None \<Rightarrow> False | Some sg \<Rightarrow> is_confident sg) = False"
      using unconf(2) by auto
    show ?thesis using r i unconf(1) unconfident_update_ok[OF unconf(1)] e by auto
  qed
qed


section \<open>Interpreter: the loop of \<open>process_signals\<close>\<close>

lemma update_steps_append:
  "update_steps net sm ts (xs @ ys) s =
     (case update_steps net sm ts xs s of Inl e \<Rightarrow> Inl e | Inr s' \<Rightarrow> update_steps net sm ts ys s')"
  by (induction xs arbitrary: s) (auto split: option.splits sum.splits)

lemma update_steps_frame:
  assumes "distinct ks" "truthy (session_id s)"
     "\<forall>k\<in>set ks. \<exists>st th. step_statuses s k = Some st \<and> step_id st = k \<and> step_thresholds s k = Some th"
  shows "\<exists>s'. update_steps net sm ts ks s = Inr s'
     \<and> step_thresholds s' = step_thresholds s \<and> step_order s' = step_order s
     \<and> session_id s' = session_id s
     \<and> (\<forall>j. j \<notin> set ks \<longrightarrow> step_statuses s' j = step_statuses s j
                               \<and> last_confident_ts s' j = last_confident_ts s j)
     \<and> (\<forall>k\<in>set ks. \<exists>st'. step_statuses s' k = Some st' \<and> step_id st' = k
            \<and> (\<forall>st. step_statuses s k = Some st \<longrightarrow>
                  (status_ok (step_thresholds s k) st \<longrightarrow> status_ok (step_thresholds s k) st')
                  \<and> (state st = COMPLETED \<longrightarrow> st' = st)))
     \<and> uncertainty_events s' = uncertainty_events s @
          map (low_confidence_event ts) (filter (loses_confidence s sm) ks)"
  using assms
proof (induction ks arbitrary: s)
  case Nil
  then show ?case by simp
next
  case (Cons k ks)
  from Cons.prems(3) obtain st th where
    k: "step_statuses s k = Some st" "step_id st = k" "step_thresholds s k = Some th"
    by auto
  from update_step_frame[OF k Cons.prems(2), of net "sm k" ts]
  obtain s1 st1 where u: "update_step net k st th (sm k) ts s = Inr s1"
     "step_thresholds s1 = step_thresholds s" "step_order s1 = step_order s"
     "session_id s1 = session_id s"
     "step_statuses s1 = (step_statuses s)(k \<mapsto> st1)" "step_id st1 = k"
     "\<forall>j. j \<noteq> k \<longrightarrow> last_confident_ts s1 j = last_confident_ts s j"
     "status_ok (Some th) st \<longrightarrow> status_ok (Some th) st1"
     "state st = COMPLETED \<longrightarrow> st1 = st"
     "uncertainty_events s1 = uncertainty_events s @
          (if state st = IN_PROGRESS \<and> \<not> (case sm k of None \<Rightarrow> False | Some sg \<Rightarrow> is_confident sg)
           then [low_confidence_event ts k] else [])"
    by blast
  have kn: "k \<notin> set ks" and d: "distinct ks" using Cons.prems(1) by simp_all
  have p2: "truthy (session_id s1)" using u(4) Cons.prems(2) by simp
  have p3: "\<forall>j\<in>set ks. \<exists>st th. step_statuses s1 j = Some st \<and> step_id st = j
                \<and> step_thresholds s1 j = Some th"
    using Cons.prems(3) kn u(2,5) by auto
  from Cons.IH[OF d p2 p3]
  obtain s' where r: "update_steps net sm ts ks s1 = Inr s'"
     "step_thresholds s' = step_thresholds s1" "step_order s' = step_order s1"
     "session_id s' = session_id s1"
     "\<forall>j. j \<notin> set ks \<longrightarrow> step_statuses s' j = step_statuses s1 j
                               \<and> last_confident_ts s' j = last_confident_ts s1 j"
     "\<forall>j\<in>set ks. \<exists>st'. step_statuses s' j = Some st' \<and> step_id st' = j
            \<and> (\<forall>st. step_statuses s1 j = Some st \<longrightarrow>
                  (status_ok (step_thresholds s1 j) st \<longrightarrow> status_ok (step_thresholds s1 j) st')
                  \<and> (state st = COMPLETED \<longrightarrow> st' = st))"
     "uncertainty_events s' = uncertainty_events s1 @
          map (low_confidence_event ts) (filter (loses_confidence s1 sm) ks)"
    by blast
  have run: "update_steps net sm ts (k # ks) s = Inr s'"
    using k u(1) r(1) by simp
  have f: "filter (loses_confidence s1 sm) ks = filter (loses_confidence s sm) ks"
    using kn u(5) by (intro filter_cong) (auto simp: loses_confidence_def)
  have lk: "loses_confidence s sm k =
      (state st = IN_PROGRESS \<and> \<not> (case sm k of None \<Rightarrow> False | Some sg \<Rightarrow> is_confident sg))"
    using k by (simp add: loses_confidence_def confident_for_def)
  have ev: "uncertainty_events s' = uncertainty_events s @
          map (low_confidence_event ts) (filter (loses_confidence s sm) (k # ks))"
    using r(7) u(10) f lk by simp
  have other: "\<forall>j. j \<notin> set (k # ks) \<longrightarrow> step_statuses s' j = step_statuses s j
                               \<and> last_confident_ts s' j = last_confident_ts s j"
    using r(5) u(5,7) by simp
  have atk: "\<exists>st'. step_statuses s' k = Some st' \<and> step_id st' = k
            \<and> (\<forall>st. step_statuses s k = Some st \<longrightarrow>
                  (status_ok (step_thresholds s k) st \<longrightarrow> status_ok (step_thresholds s k) st')
                  \<and> (state st = COMPLETED \<longrightarrow> st' = st))"
    using r(5) kn u(5,6,8,9) k by simp
  have rest: "\<forall>j\<in>set ks. \<exists>st'. step_statuses s' j = Some st' \<and> step_id st' = j
            \<and> (\<forall>st. step_statuses s j = Some st \<longrightarrow>
                  (status_ok (step_thresholds s j) st \<longrightarrow> status_ok (step_thresholds s j) st')
                  \<and> (state st = COMPLETED \<longrightarrow> st' = st))"
  proof
    fix j assume j: "j \<in> set ks"
    then have "j \<noteq> k" using kn by auto
    then have "step_statuses s1 j = step_statuses s j" "step_thresholds s1 j = step_thresholds s j"
      using u(2,5) by simp_all
    with r(6) j show "\<exists>st'. step_statuses s' j = Some st' \<and> step_id st' = j
            \<and> (\<forall>st. step_statuses s j = Some st \<longrightarrow>
                  (status_ok (step_thresholds s j) st \<longrightarrow> status_ok (step_thresholds s j) st')
                  \<and> (state st = COMPLETED \<longrightarrow> st' = st))"
      by (metis (no_types, lifting))
  qed
  show ?case using run r(2,3,4) u(2,3,4) other atk rest ev by simp
qed

lemma update_steps_at:
  assumes d: "distinct ks" and sess: "truthy (session_id s)"
      and pre: "\<forall>k\<in>set ks. \<exists>st th. step_statuses s k = Some st \<and> step_id st = k \<and> step_thresholds s k = Some th"
      and k: "k \<in> set ks" "step_statuses s k = Some st" "step_thresholds s k = Some th"
  shows "\<exists>s' sp sq. update_steps net sm ts ks s = Inr s'
      \<and> truthy (session_id sp) \<and> step_thresholds sp k = Some th
      \<and> step_statuses sp k = Some st
      \<and> last_confident_ts sp k = last_confident_ts s k
      \<and> update_step net k st th (sm k) ts sp = Inr sq
      \<and> step_statuses s' k = step_statuses sq k
      \<and> last_confident_ts s' k = last_confident_ts sq k"
proof -
  from k(1) obtain xs ys where ks: "ks = xs @ k # ys" by (meson split_list)
  with d have nx: "k \<notin> set xs" and ny: "k \<notin> set ys" and dx: "distinct xs" and dy: "distinct ys"
    by auto
  have px: "\<forall>j\<in>set xs. \<exists>st th. step_statuses s j = Some st \<and> step_id st = j \<and> step_thresholds s j = Some th"
    using pre ks by auto
  from update_steps_frame[OF dx sess px, of net sm ts]
  obtain sp where sp: "update_steps net sm ts xs s = Inr sp"
     "step_thresholds sp = step_thresholds s" "session_id sp = session_id s"
     "\<forall>j. j \<notin> set xs \<longrightarrow> step_statuses sp j = step_statuses s j
                               \<and> last_confident_ts sp j = last_confident_ts s j"
    by blast
  have kp: "step_statuses sp k = Some st" "step_thresholds sp k = Some th"
           "last_confident_ts sp k = last_confident_ts s k" "truthy (session_id sp)"
    using sp nx k sess by simp_all
  from pre k have idk: "step_id st = k" by auto
  from update_step_frame[OF kp(1) idk kp(2) kp(4), of net "sm k" ts]
  obtain sq st1 where sq: "update_step net k st th (sm k) ts sp = Inr sq"
     "step_thresholds sq = step_thresholds sp" "session_id sq = session_id sp"
     "step_statuses sq = (step_statuses sp)(k \<mapsto> st1)"
    by blast
  have py: "\<forall>j\<in>set ys. \<exists>st th. step_statuses sq j = Some st \<and> step_id st = j \<and> step_thresholds sq j = Some th"
  proof
    fix j assume j: "j \<in> set ys"
    then have "j \<noteq> k" "j \<notin> set xs" "j \<in> set ks" using ny d ks by auto
    then show "\<exists>st th. step_statuses sq j = Some st \<and> step_id st = j \<and> step_thresholds sq j = Some th"
      using pre sp(2,4) sq(2,4) by simp
  qed
  have sessq: "truthy (session_id sq)" using sq(3) kp(4) by simp
  from update_steps_frame[OF dy sessq py, of net sm ts]
  obtain s' where s': "update_steps net sm ts ys sq = Inr s'"
     "\<forall>j. j \<notin> set ys \<longrightarrow> step_statuses s' j = step_statuses sq j
                               \<and> last_confident_ts s' j = last_confident_ts sq j"
    by blast
  have "update_steps net sm ts ks s = Inr s'"
    using ks sp(1) sq(1) s'(1) kp by (simp add: update_steps_append)
  then show ?thesis using kp sq(1) s'(2) ny by blast
qed

lemma wf_loop_pre:
  assumes "interp_wf s" "truthy (session_id s)"
  shows "\<forall>k\<in>set (step_order s). \<exists>st th. step_statuses s k = Some st \<and> step_id st = k \<and> step_thresholds s k = Some th"
  using assms unfolding interp_wf_def by (metis not_None_eq)

lemma process_signals_unfold:
  "truthy (session_id s) \<Longrightarrow>
   process_signals net signals ts s =
     update_steps net (signal_map signals) ts (step_order s)
       (set_active_step net (map_option sig_step_id (select_active_signal signals)) ts s)"
  by (simp add: process_signals_def Let_def)

lemma wf_set_active_step [simp]: "interp_wf (set_active_step net k ts s) = interp_wf s"
  by (simp add: interp_wf_def)

lemma status_inv_set_active_step [simp]: "status_inv (set_active_step net k ts s) = status_inv s"
  by (simp add: status_inv_def)

lemma loses_confidence_set_active_step [simp]:
  "loses_confidence (set_active_step net k ts s) = loses_confidence s"
  by (simp add: loses_confidence_def fun_eq_iff)

lemma process_signals_frame:
  assumes w: "interp_wf s" and sess: "truthy (session_id s)"
  shows "\<exists>s'. process_signals net signals ts s = Inr s'
     \<and> step_thresholds s' = step_thresholds s \<and> step_order s' = step_order s
     \<and> session_id s' = session_id s \<and> interp_wf s'
     \<and> (status_inv s \<longrightarrow> status_inv s')
     \<and> (\<forall>k st. step_statuses s k = Some st \<and> state st = COMPLETED \<longrightarrow> step_statuses s' k = Some st)
     \<and> uncertainty_events s' = uncertainty_events s @
          map (low_confidence_event ts) (filter (loses_confidence s (signal_map signals)) (step_order s))
     \<and> (\<forall>j. j \<notin> set (step_order s) \<longrightarrow> last_confident_ts s' j = last_confident_ts s j)"
proof -
  let ?s1 = "set_active_step net (map_option sig_step_id (select_active_signal signals)) ts s"
  have w1: "interp_wf ?s1" and sess1: "truthy (session_id ?s1)" using w sess by simp_all
  have d: "distinct (step_order ?s1)" using w by (simp add: interp_wf_def)
  from update_steps_frame[OF d sess1 wf_loop_pre[OF w1 sess1], of net "signal_map signals" ts]
  obtain s' where r: "update_steps net (signal_map signals) ts (step_order ?s1) ?s1 = Inr s'"
     "step_thresholds s' = step_thresholds s" "step_order s' = step_order s"
     "session_id s' = session_id s"
     "\<forall>j. j \<notin> set (step_order s) \<longrightarrow> step_statuses s' j = step_statuses s j
                               \<and> last_confident_ts s' j = last_confident_ts s j"
     "\<forall>k\<in>set (step_order s). \<exists>st'. step_statuses s' k = Some st' \<and> step_id st' = k
            \<and> (\<forall>st. step_statuses s k = Some st \<longrightarrow>
                  (status_ok (step_thresholds s k) st \<longrightarrow> status_ok (step_thresholds s k) st')
                  \<and> (state st = COMPLETED \<longrightarrow> st' = st))"
     "uncertainty_events s' = uncertainty_events s @
          map (low_confidence_event ts) (filter (loses_confidence s (signal_map signals)) (step_order s))"
    by auto
  have run: "process_signals net signals ts s = Inr s'"
    using r(1) sess by (simp add: process_signals_unfold)
  have out: "\<And>j. j \<notin> set (step_order s) \<Longrightarrow> step_statuses s' j = None"
    using r(5) w unfolding interp_wf_def by (metis not_None_eq)
  have interp_wf': "interp_wf s'"
    unfolding interp_wf_def
  proof (intro conjI allI impI ballI)
    show "distinct (step_order s')" using w r(3) by (simp add: interp_wf_def)
    show "\<And>k. k \<in> set (step_order s') \<Longrightarrow> step_thresholds s' k \<noteq> None"
      using w r(2,3) by (simp add: interp_wf_def)
    show "\<And>k st. step_statuses s' k = Some st \<Longrightarrow> step_id st = k"
      using r(6) out by (metis option.distinct(1) option.inject)
    show "\<And>k st. step_statuses s' k = Some st \<Longrightarrow> k \<in> set (step_order s')"
      using out r(3) by (metis option.distinct(1))
    show "\<And>k. truthy (session_id s') \<Longrightarrow> k \<in> set (step_order s') \<Longrightarrow> step_statuses s' k \<noteq> None"
      using r(3,6) by auto
  qed
  have inv: "status_inv s \<longrightarrow> status_inv s'"
  proof
    assume i: "status_inv s"
    show "status_inv s'"
      unfolding status_inv_def
    proof (intro allI impI)
      fix k st' assume a: "step_statuses s' k = Some st'"
      then have kin: "k \<in> set (step_order s)" using out by (metis option.distinct(1))
      from wf_loop_pre[OF w sess] kin obtain st where st: "step_statuses s k = Some st" by auto
      with i have "status_ok (step_thresholds s k) st" by (simp add: status_inv_def)
      with r(6) kin st a show "status_ok (step_thresholds s' k) st'" using r(2) by auto
    qed
  qed
  have frozen: "\<forall>k st. step_statuses s k = Some st \<and> state st = COMPLETED \<longrightarrow> step_statuses s' k = Some st"
  proof (intro allI impI)
    fix k st assume a: "step_statuses s k = Some st \<and> state st = COMPLETED"
    then have "k \<in> set (step_order s)" using w by (auto simp: interp_wf_def)
    with r(6) a show "step_statuses s' k = Some st" by auto
  qed
  from r(5) have outl: "\<forall>j. j \<notin> set (step_order s) \<longrightarrow> last_confident_ts s' j = last_confident_ts s j"
    by simp
  show ?thesis using run r(2,3,4,7) interp_wf' inv frozen outl by blast
qed

lemma process_signals_at:
  assumes w: "interp_wf s" and sess: "truthy (session_id s)"
      and k: "step_statuses s k = Some st" "step_thresholds s k = Some th"
  shows "\<exists>s' sp sq. process_signals net signals ts s = Inr s'
      \<and> truthy (session_id sp) \<and> step_thresholds sp k = Some th
      \<and> step_statuses sp k = Some st \<and> step_id st = k
      \<and> last_confident_ts sp k = last_confident_ts s k
      \<and> update_step net k st th (signal_map signals k) ts sp = Inr sq
      \<and> step_statuses s' k = step_statuses sq k
      \<and> last_confident_ts s' k = last_confident_ts sq k"
proof -
  let ?s1 = "set_active_step net (map_option sig_step_id (select_active_signal signals)) ts s"
  have w1: "interp_wf ?s1" and sess1: "truthy (session_id ?s1)" using w sess by simp_all
  have d: "distinct (step_order ?s1)" using w by (simp add: interp_wf_def)
  have kin: "k \<in> set (step_order ?s1)" and idk: "step_id st = k" using w k by (auto simp: interp_wf_def)
  have k1: "step_statuses ?s1 k = Some st" "step_thresholds ?s1 k = Some th" using k by simp_all
  from update_steps_at[OF d sess1 wf_loop_pre[OF w1 sess1] kin k1, of net "signal_map signals" ts]
  show ?thesis using sess idk by (simp add: process_signals_unfold)
qed

lemma confident_signal_step:
  assumes w: "interp_wf s" and sess: "truthy (session_id s)"
      and k: "step_statuses s k = Some st" "step_thresholds s k = Some th"
      and nc: "state st \<noteq> COMPLETED"
      and sg: "signal_map signals k = Some sg" "is_confident sg" "sig_timestamp_ms sg = t"
  shows "\<exists>s' st'. process_signals net signals ts s = Inr s' \<and> step_statuses s' k = Some st'
     \<and> (last_confident_ts s k = None \<longrightarrow> accumulated_ms st' = accumulated_ms st)
     \<and> (\<forall>l. last_confident_ts s k = Some l \<longrightarrow>
            accumulated_ms st' = accumulated_ms st + max 0 (t - l))
     \<and> (state st' = COMPLETED \<longleftrightarrow> accumulated_ms st' \<ge> duration_ms th)
     \<and> (accumulated_ms st' \<ge> duration_ms th \<longrightarrow>
            completed_ts st' = Some t \<and> last_confident_ts s' k = None)
     \<and> (accumulated_ms st' < duration_ms th \<longrightarrow>
            state st' = IN_PROGRESS \<and> completed_ts st' = completed_ts st
            \<and> last_confident_ts s' k = Some t)"
proof -
  from process_signals_at[OF w sess k, of net signals ts]
  obtain s' sp sq where r: "process_signals net signals ts s = Inr s'"
      "truthy (session_id sp)" "step_thresholds sp k = Some th"
      "step_statuses sp k = Some st" "step_id st = k"
      "last_confident_ts sp k = last_confident_ts s k"
      "update_step net k st th (signal_map signals k) ts sp = Inr sq"
      "step_statuses s' k = step_statuses sq k"
      "last_confident_ts s' k = last_confident_ts sq k"
    by blast
  have th: "step_thresholds sp k \<noteq> None" using r(3) by simp
  from update_step_confident[OF nc r(5) th sg(2), of net th ts] r(7) sg(1)
  have q: "step_statuses sq = (step_statuses sp)(k \<mapsto> fst (confident_update sg st th sp))"
      "last_confident_ts sq = last_confident_ts (snd (confident_update sg st th sp))"
    by simp_all
  let ?st' = "fst (confident_update sg st th sp)"
  have a: "step_statuses s' k = Some ?st'" using r(8) q(1) by simp
  have b: "last_confident_ts s' k = last_confident_ts (snd (confident_update sg st th sp)) k"
    using r(9) q(2) by simp
  note cs = confident_update_status[OF nc, of sg th sp] confident_update_state[OF nc, of sg th sp]
  have acc: "accumulated_ms ?st' = accumulated_ms st + dwell_delta (last_confident_ts s k) t"
    using cs(1) r(5,6) sg(3) by (simp add: Let_def)
  have st: "state ?st' = (if accumulated_ms ?st' \<ge> duration_ms th then COMPLETED else IN_PROGRESS)"
    using cs(1) r(5,6) sg(3) by (simp add: Let_def)
  have ct: "completed_ts ?st' = (if accumulated_ms ?st' \<ge> duration_ms th then Some t else completed_ts st)"
    using cs(1) r(5,6) sg(3) by (simp add: Let_def)
  have lc: "last_confident_ts s' k = (if accumulated_ms ?st' \<ge> duration_ms th then None else Some t)"
    using b cs(2) acc r(5,6) sg(3) by simp
  show ?thesis using r(1) a acc st ct lc
    by (auto simp: dwell_delta_def)
qed

lemma signal_map_snoc:
  "signal_map (xs @ [x]) = (signal_map xs)(sig_step_id x \<mapsto> x)"
  by (simp add: signal_map_def)

lemma signal_map_Some:
  "signal_map signals k = Some sg \<Longrightarrow> sg \<in> set signals \<and> sig_step_id sg = k"
proof (induction signals rule: rev_induct)
  case Nil
  then show ?case by (simp add: signal_map_def)
next
  case (snoc x xs)
  then show ?case by (auto simp: signal_map_snoc split: if_splits)
qed

lemma no_confident_signal:
  "\<forall>sg\<in>set signals. sig_step_id sg = k \<longrightarrow> \<not> is_confident sg \<Longrightarrow>
   \<not> confident_for (signal_map signals) k"
  by (auto simp: confident_for_def split: option.splits dest: signal_map_Some)

lemma step_value_inj: "step_value a = step_value b \<Longrightarrow> a = b"
  by (cases a; cases b; simp)

lemma low_confidence_event_inj:
  "(low_confidence_event ts a = low_confidence_event ts b) = (a = b)"
  by (auto simp: low_confidence_event_def dest: step_value_inj)

lemma count_list_events:
  "distinct xs \<Longrightarrow>
   count_list (map (low_confidence_event ts) (filter P xs)) (low_confidence_event ts k) =
     (if k \<in> set xs \<and> P k then 1 else 0)"
  by (induction xs) (auto simp: low_confidence_event_inj)

lemma unconfident_signal_step:
  assumes w: "interp_wf s" and sess: "truthy (session_id s)"
      and k: "step_statuses s k = Some st"
      and nc: "state st \<noteq> COMPLETED"
      and nosig: "\<forall>sg\<in>set signals. sig_step_id sg = k \<longrightarrow> \<not> is_confident sg"
  shows "\<exists>s' st' evs. process_signals net signals ts s = Inr s' \<and> step_statuses s' k = Some st'
     \<and> last_confident_ts s' k = None
     \<and> (state st = IN_PROGRESS \<longrightarrow>
           st' = st\<lparr> state := UNCERTAIN, uncertainty_count := uncertainty_count st + 1 \<rparr>)
     \<and> (state st \<noteq> IN_PROGRESS \<longrightarrow> st' = st)
     \<and> uncertainty_events s' = uncertainty_events s @ evs
     \<and> evs = map (low_confidence_event ts)
                (filter (loses_confidence s (signal_map signals)) (step_order s))
     \<and> count_list evs (low_confidence_event ts k) = (if state st = IN_PROGRESS then 1 else 0)"
proof -
  from w k obtain th where th: "step_thresholds s k = Some th" and kin: "k \<in> set (step_order s)"
    unfolding interp_wf_def by (metis not_None_eq)
  from process_signals_at[OF w sess k th, of net signals ts]
  obtain s' sp sq where r: "process_signals net signals ts s = Inr s'"
      "truthy (session_id sp)" "step_thresholds sp k = Some th"
      "step_statuses sp k = Some st" "step_id st = k"
      "last_confident_ts sp k = last_confident_ts s k"
      "update_step net k st th (signal_map signals k) ts sp = Inr sq"
      "step_statuses s' k = step_statuses sq k"
      "last_confident_ts s' k = last_confident_ts sq k"
    by blast
  have nconf: "\<not> confident_for (signal_map signals) k" using nosig by (rule no_confident_signal)
  then have un: "signal_map signals k = None \<or> (\<exists>sg. signal_map signals k = Some sg \<and> \<not> is_confident sg)"
    by (auto simp: confident_for_def split: option.splits)
  have thn: "step_thresholds sp k \<noteq> None" using r(3) by simp
  from update_step_unconfident[OF nc r(5) thn un r(2), of net th ts] r(7)
  have q: "step_statuses sq = (step_statuses sp)(k \<mapsto> fst (unconfident_update st ts sp))"
      "last_confident_ts sq = (last_confident_ts sp)(k := None)"
    by simp_all
  let ?st' = "fst (unconfident_update st ts sp)"
  have a: "step_statuses s' k = Some ?st'" using r(8) q(1) by simp
  have b: "last_confident_ts s' k = None" using r(9) q(2) by simp
  from process_signals_frame[OF w sess, of net signals ts] r(1)
  have ev: "uncertainty_events s' = uncertainty_events s @
          map (low_confidence_event ts) (filter (loses_confidence s (signal_map signals)) (step_order s))"
    by auto
  have d: "distinct (step_order s)" using w by (simp add: interp_wf_def)
  have lc: "loses_confidence s (signal_map signals) k = (state st = IN_PROGRESS)"
    using k nconf by (simp add: loses_confidence_def)
  have cnt: "count_list (map (low_confidence_event ts)
                (filter (loses_confidence s (signal_map signals)) (step_order s)))
               (low_confidence_event ts k) = (if state st = IN_PROGRESS then 1 else 0)"
    using count_list_events[OF d, of ts "loses_confidence s (signal_map signals)" k] kin lc by simp
  show ?thesis using r(1) a b ev cnt by (simp add: unconfident_update_status)
qed


section \<open>Interpreter: invariants of every run\<close>

lemma publish_all_core:
  assumes "\<forall>k\<in>set ks. \<forall>st. step_statuses s k = Some st \<longrightarrow> step_thresholds s (step_id st) \<noteq> None"
  shows "\<exists>s'. publish_all net ts force ks s = Inr s'
     \<and> step_thresholds s' = step_thresholds s \<and> step_order s' = step_order s
     \<and> session_id s' = session_id s \<and> step_statuses s' = step_statuses s
     \<and> last_confident_ts s' = last_confident_ts s
     \<and> uncertainty_events s' = uncertainty_events s"
  using assms
proof (induction ks arbitrary: s)
  case Nil
  then show ?case by simp
next
  case (Cons k ks)
  show ?case
  proof (cases "step_statuses s k")
    case None
    with Cons.IH[of s] Cons.prems show ?thesis by simp
  next
    case (Some st)
    with Cons.prems have "step_thresholds s (step_id st) \<noteq> None" by simp
    from publish_status_total[OF this, of net ts force]
    obtain s1 where p: "publish_status net st ts force s = Inr s1" by blast
    note c = publish_status_core[OF p]
    have "\<forall>k\<in>set ks. \<forall>st. step_statuses s1 k = Some st \<longrightarrow> step_thresholds s1 (step_id st) \<noteq> None"
      using Cons.prems c by simp
    from Cons.IH[OF this] p Some c show ?thesis by simp
  qed
qed

lemma begin_led_session_core [simp]:
  "step_thresholds (begin_led_session ts s) = step_thresholds s"
  "step_order (begin_led_session ts s) = step_order s"
  "session_id (begin_led_session ts s) = session_id s"
  "step_statuses (begin_led_session ts s) = step_statuses s"
  "last_confident_ts (begin_led_session ts s) = last_confident_ts s"
  "uncertainty_events (begin_led_session ts s) = uncertainty_events s"
  by (simp_all add: begin_led_session_def split: option.splits)

lemma foldl_send_led_core:
  "step_thresholds (foldl (\<lambda>s' k. send_led_signal net k st ts force s') s ks) = step_thresholds s
   \<and> step_order (foldl (\<lambda>s' k. send_led_signal net k st ts force s') s ks) = step_order s
   \<and> session_id (foldl (\<lambda>s' k. send_led_signal net k st ts force s') s ks) = session_id s
   \<and> step_statuses (foldl (\<lambda>s' k. send_led_signal net k st ts force s') s ks) = step_statuses s
   \<and> last_confident_ts (foldl (\<lambda>s' k. send_led_signal net k st ts force s') s ks) = last_confident_ts s
   \<and> uncertainty_events (foldl (\<lambda>s' k. send_led_signal net k st ts force s') s ks) = uncertainty_events s"
  by (induction ks arbitrary: s) simp_all

lemma end_led_session_core [simp]:
  "step_thresholds (end_led_session net ts s) = step_thresholds s"
  "step_order (end_led_session net ts s) = step_order s"
  "session_id (end_led_session net ts s) = session_id s"
  "step_statuses (end_led_session net ts s) = step_statuses s"
  "last_confident_ts (end_led_session net ts s) = last_confident_ts s"
  "uncertainty_events (end_led_session net ts s) = uncertainty_events s"
  by (simp_all add: end_led_session_def foldl_send_led_core split: option.splits)

lemma end_session_core [simp]:
  "step_thresholds (end_session net ts s) = step_thresholds s"
  "step_order (end_session net ts s) = step_order s"
  "step_statuses (end_session net ts s) = step_statuses s"
  "last_confident_ts (end_session net ts s) = last_confident_ts s"
  "uncertainty_events (end_session net ts s) = uncertainty_events s"
  "session_id (end_session net ts s) = (if truthy (session_id s) then None else session_id s)"
  by (simp_all add: end_session_def Let_def split: option.splits)

lemma wf_end_session: "interp_wf s \<Longrightarrow> interp_wf (end_session net ts s)"
  by (simp add: interp_wf_def)

lemma status_inv_end_session [simp]: "status_inv (end_session net ts s) = status_inv s"
  by (simp add: status_inv_def)

lemma start_session_result:
  assumes "distinct (step_order s)" "\<forall>k \<in> set (step_order s). step_thresholds s k \<noteq> None"
  shows "\<exists>s'. start_session net sid ts s = Inr s'
     \<and> step_thresholds s' = step_thresholds s \<and> step_order s' = step_order s
     \<and> session_id s' = Some sid
     \<and> step_statuses s' = (\<lambda>k. if k \<in> set (step_order s) then Some (new_status k) else None)
     \<and> last_confident_ts s' = (\<lambda>_. None)
     \<and> uncertainty_events s' = []"
proof -
  let ?s1 = "s\<lparr> session_id := Some sid,
                  uncertainty_events := [],
                  step_statuses :=
                    (\<lambda>k. if k \<in> set (step_order s) then Some (new_status k) else None),
                  last_confident_ts := (\<lambda>_. None),
                  last_published :=
                    (\<lambda>k. if k \<in> set (step_order s) then Some (NOT_STARTED, 0, NONE) else None),
                  active_step_id := None,
                  led_states := (\<lambda>_. None) \<rparr>"
  let ?s2 = "begin_led_session ts ?s1"
  have "\<forall>k\<in>set (step_order ?s2). \<forall>st. step_statuses ?s2 k = Some st \<longrightarrow> step_thresholds ?s2 (step_id st) \<noteq> None"
    using assms(2) by (auto simp: new_status_def)
  from publish_all_core[OF this, of net ts True]
  obtain s3 where p: "publish_all net ts True (step_order ?s2) ?s2 = Inr s3"
     "step_thresholds s3 = step_thresholds ?s2" "step_order s3 = step_order ?s2"
     "session_id s3 = session_id ?s2" "step_statuses s3 = step_statuses ?s2"
     "last_confident_ts s3 = last_confident_ts ?s2"
     "uncertainty_events s3 = uncertainty_events ?s2"
    by blast
  have "start_session net sid ts s = Inr (emit_active_step net ts None s3)"
    using p(1) by (simp add: start_session_def Let_def)
  then show ?thesis using p by simp
qed

lemma start_session_wf:
  assumes "interp_wf s"
  shows "\<exists>s'. start_session net sid ts s = Inr s' \<and> interp_wf s' \<and> status_inv s'
           \<and> step_thresholds s' = step_thresholds s"
proof -
  from assms have a: "distinct (step_order s)" "\<forall>k \<in> set (step_order s). step_thresholds s k \<noteq> None"
    by (simp_all add: interp_wf_def)
  from start_session_result[OF a, of net sid ts]
  obtain s' where r: "start_session net sid ts s = Inr s'"
     "step_thresholds s' = step_thresholds s" "step_order s' = step_order s"
     "session_id s' = Some sid"
     "step_statuses s' = (\<lambda>k. if k \<in> set (step_order s) then Some (new_status k) else None)"
    by blast
  have "interp_wf s'" using a r by (auto simp: interp_wf_def new_status_def split: if_splits)
  moreover have "status_inv s'"
    using r by (auto simp: status_inv_def status_ok_def new_status_def split: if_splits)
  ultimately show ?thesis using r(1,2) by blast
qed

lemma wf_Interp_init: "interp_wf (Interp_init cfg led)"
  by (simp add: interp_wf_def Interp_init_def VALID_STEP_IDS_def)

lemma status_inv_Interp_init: "status_inv (Interp_init cfg led)"
  by (simp add: status_inv_def Interp_init_def)

lemma interp_step_inv:
  assumes "interp_wf s" "status_inv s"
  shows "\<exists>s'. interp_step net x s = Inr s' \<and> interp_wf s' \<and> status_inv s'
           \<and> step_thresholds s' = step_thresholds s"
proof (cases x)
  case (OpStartSession sid ts)
  with start_session_wf[OF assms(1), of net sid ts] show ?thesis by simp
next
  case (OpProcessSignals signals ts)
  show ?thesis
  proof (cases "truthy (session_id s)")
    case True
    from process_signals_frame[OF assms(1) True, of net signals ts] assms(2) OpProcessSignals
    show ?thesis by auto
  next
    case False
    with assms OpProcessSignals show ?thesis by (simp add: process_signals_def)
  qed
next
  case (OpEndSession ts)
  with assms show ?thesis by (simp add: wf_end_session)
qed

lemma interp_run_inv:
  assumes "interp_wf s" "status_inv s"
  shows "\<exists>s'. interp_run net ops s = Inr s' \<and> interp_wf s' \<and> status_inv s'
           \<and> step_thresholds s' = step_thresholds s"
  using assms
proof (induction ops arbitrary: s)
  case Nil
  then show ?case by simp
next
  case (Cons x xs)
  from interp_step_inv[OF Cons.prems, of net x]
  obtain s1 where s1: "interp_step net x s = Inr s1" "interp_wf s1" "status_inv s1"
      "step_thresholds s1 = step_thresholds s" by blast
  from Cons.IH[OF s1(2,3)] s1(1,4) show ?case by simp
qed

lemma reachable_inv:
  "\<exists>s. interp_run net ops (Interp_init cfg led) = Inr s \<and> interp_wf s \<and> status_inv s
       \<and> step_thresholds s = (\<lambda>k. steps cfg (step_value k))"
  using interp_run_inv[OF wf_Interp_init status_inv_Interp_init, of net ops cfg led]
  by (simp add: Interp_init_def)

lemma no_start_run_frozen:
  assumes "interp_wf s" "step_statuses s k = Some st" "state st = COMPLETED"
          "\<forall>x\<in>set ops. \<not> (\<exists>sid ts. x = OpStartSession sid ts)"
  shows "\<exists>s'. interp_run net ops s = Inr s' \<and> step_statuses s' k = Some st"
  using assms
proof (induction ops arbitrary: s)
  case Nil
  then show ?case by simp
next
  case (Cons x xs)
  have "\<exists>s1. interp_step net x s = Inr s1 \<and> interp_wf s1 \<and> step_statuses s1 k = Some st"
  proof (cases x)
    case (OpStartSession sid ts)
    with Cons.prems(4) show ?thesis by auto
  next
    case (OpProcessSignals signals ts)
    show ?thesis
    proof (cases "truthy (session_id s)")
      case True
      from process_signals_frame[OF Cons.prems(1) True, of net signals ts] Cons.prems(2,3) OpProcessSignals
      show ?thesis by auto
    next
      case False
      with Cons.prems OpProcessSignals show ?thesis by (simp add: process_signals_def)
    qed
  next
    case (OpEndSession ts)
    with Cons.prems show ?thesis by (simp add: wf_end_session)
  qed
  then obtain s1 where s1: "interp_step net x s = Inr s1" "interp_wf s1" "step_statuses s1 k = Some st"
    by blast
  from Cons.IH[OF s1(2,3) Cons.prems(3)] Cons.prems(4) s1(1) show ?case by simp
qed




section \<open>Interpreter: the claims about \<open>process_signals\<close>\<close>

text \<open>
  Claim C1. In a state reached by any run of the interpreter, during a session, let a
  step that is not \<open>COMPLETED\<close> receive in \<open>process_signals\<close> a confident signal with
  timestamp \<open>t\<close> (the signal the frame's signal map holds for the step). Then the call
  returns normally; \<open>accumulated_ms\<close> is unchanged when \<open>last_confident_ts\<close> was unset and
  grows by exactly \<open>max(0, t - last_confident_ts)\<close> otherwise; the step is \<open>COMPLETED\<close>
  afterwards exactly when the new \<open>accumulated_ms\<close> is at least the configured
  \<open>duration_ms\<close>, and then \<open>completed_ts = t\<close> and \<open>last_confident_ts\<close> is cleared;
  otherwise the step is \<open>IN_PROGRESS\<close> and \<open>last_confident_ts = t\<close>.
\<close>

theorem confident_signal_accumulates_and_completes:
  assumes reach: "interp_run net ops (Interp_init cfg led) = Inr s"
      and sess: "truthy (session_id s)"
      and k: "step_statuses s k = Some st" "steps cfg (step_value k) = Some th"
      and nc: "state st \<noteq> COMPLETED"
      and sg: "signal_map signals k = Some sg" "is_confident sg" "sig_timestamp_ms sg = t"
  shows "\<exists>s' st'. process_signals net signals ts s = Inr s' \<and> step_statuses s' k = Some st'
     \<and> (last_confident_ts s k = None \<longrightarrow> accumulated_ms st' = accumulated_ms st)
     \<and> (\<forall>l. last_confident_ts s k = Some l \<longrightarrow>
            accumulated_ms st' = accumulated_ms st + max 0 (t - l))
     \<and> (state st' = COMPLETED \<longleftrightarrow> accumulated_ms st' \<ge> duration_ms th)
     \<and> (accumulated_ms st' \<ge> duration_ms th \<longrightarrow>
            completed_ts st' = Some t \<and> last_confident_ts s' k = None)
     \<and> (accumulated_ms st' < duration_ms th \<longrightarrow>
            state st' = IN_PROGRESS \<and> completed_ts st' = completed_ts st
            \<and> last_confident_ts s' k = Some t)"
proof -
  from reachable_inv[of net ops cfg led] reach
  have w: "interp_wf s" and th: "step_thresholds s k = Some th" using k(2) by auto
  from confident_signal_step[OF w sess k(1) th nc sg] show ?thesis .
qed

theorem confident_signal_accumulates_and_completes_witness:
  "\<exists>s s' st'. interp_run wnet wops1 (Interp_init wcfg None) = Inr s
     \<and> truthy (session_id s)
     \<and> step_statuses s STEP_2 = Some \<lparr> step_id = STEP_2, orientation = NONE, state = IN_PROGRESS,
                    accumulated_ms = 150, completed_ts = None, uncertainty_count = 0 \<rparr>
     \<and> steps wcfg (step_value STEP_2)
         = Some \<lparr> duration_ms = 300, confidence_min = 1/2, orientation_hint = None \<rparr>
     \<and> signal_map [wsig STEP_2 600] STEP_2 = Some (wsig STEP_2 600)
     \<and> is_confident (wsig STEP_2 600) \<and> sig_timestamp_ms (wsig STEP_2 600) = 600
     \<and> last_confident_ts s STEP_2 = Some 450
     \<and> process_signals wnet [wsig STEP_2 600] 600 s = Inr s'
     \<and> step_statuses s' STEP_2 = Some st'
     \<and> accumulated_ms st' = 300 \<and> state st' = COMPLETED \<and> completed_ts st' = Some 600
     \<and> last_confident_ts s' STEP_2 = None"
proof -
  from reachable_inv[of wnet wops1 wcfg None]
  obtain s where run: "interp_run wnet wops1 (Interp_init wcfg None) = Inr s" by blast
  have "case interp_run wnet wops1 (Interp_init wcfg None) of Inl _ \<Rightarrow> False
        | Inr s \<Rightarrow> truthy (session_id s)
           \<and> step_statuses s STEP_2 = Some \<lparr> step_id = STEP_2, orientation = NONE,
                 state = IN_PROGRESS, accumulated_ms = 150, completed_ts = None,
                 uncertainty_count = 0 \<rparr>
           \<and> last_confident_ts s STEP_2 = Some 450"
    by code_simp
  with run have f: "truthy (session_id s)"
      "step_statuses s STEP_2 = Some \<lparr> step_id = STEP_2, orientation = NONE,
                 state = IN_PROGRESS, accumulated_ms = 150, completed_ts = None,
                 uncertainty_count = 0 \<rparr>"
      "last_confident_ts s STEP_2 = Some 450"
    by simp_all
  have c: "steps wcfg (step_value STEP_2)
         = Some \<lparr> duration_ms = 300, confidence_min = 1/2, orientation_hint = None \<rparr>"
    by (simp add: wcfg_def wsteps_def VALID_STEP_IDS_def)
  have g: "signal_map [wsig STEP_2 600] STEP_2 = Some (wsig STEP_2 600)"
      "is_confident (wsig STEP_2 600)" "sig_timestamp_ms (wsig STEP_2 600) = 600"
    by (simp_all add: signal_map_def wsig_def)
  have nc: "state \<lparr> step_id = STEP_2, orientation = NONE,
                 state = IN_PROGRESS, accumulated_ms = 150, completed_ts = None,
                 uncertainty_count = 0 \<rparr> \<noteq> COMPLETED" by simp
  from confident_signal_accumulates_and_completes[OF run f(1,2) c nc g, where ts = 600]
  obtain s' st' where r: "process_signals wnet [wsig STEP_2 600] 600 s = Inr s'"
     "step_statuses s' STEP_2 = Some st'"
     "\<forall>l. last_confident_ts s STEP_2 = Some l \<longrightarrow>
            accumulated_ms st' = 150 + max 0 (600 - l)"
     "state st' = COMPLETED \<longleftrightarrow> accumulated_ms st' \<ge> 300"
     "accumulated_ms st' \<ge> 300 \<longrightarrow> completed_ts st' = Some 600 \<and> last_confident_ts s' STEP_2 = None"
    by auto
  from r(3) f(3) have a: "accumulated_ms st' = 300" by simp
  with r have "state st' = COMPLETED" "completed_ts st' = Some 600" "last_confident_ts s' STEP_2 = None"
    by simp_all
  with run f c g r(1,2) a show ?thesis by blast
qed

text \<open>
  Claim C3. In a state reached by any run of the interpreter, during a session, take a
  step that is not \<open>COMPLETED\<close> and for which the frame passed to \<open>process_signals\<close> holds
  no confident signal. The call returns normally and clears the step's
  \<open>last_confident_ts\<close>. If the step was \<open>IN_PROGRESS\<close> its status changes only in
  \<open>state\<close>, which becomes \<open>UNCERTAIN\<close>, and in \<open>uncertainty_count\<close>, which grows by one;
  otherwise (\<open>NOT_STARTED\<close> or \<open>UNCERTAIN\<close>) the status is unchanged. The events appended
  to the session's uncertainty events are one \<open>LOW_CONFIDENCE\<close> event at the frame's
  timestamp for each step that was \<open>IN_PROGRESS\<close> without a confident signal, so
  exactly one for this step if it was \<open>IN_PROGRESS\<close> and none for it otherwise.
\<close>

theorem unconfident_step_pauses:
  assumes reach: "interp_run net ops (Interp_init cfg led) = Inr s"
      and sess: "truthy (session_id s)"
      and k: "step_statuses s k = Some st"
      and nc: "state st \<noteq> COMPLETED"
      and nosig: "\<forall>sg\<in>set signals. sig_step_id sg = k \<longrightarrow> \<not> is_confident sg"
  shows "\<exists>s' st' evs. process_signals net signals ts s = Inr s' \<and> step_statuses s' k = Some st'
     \<and> last_confident_ts s' k = None
     \<and> (state st = IN_PROGRESS \<longrightarrow>
           st' = st\<lparr> state := UNCERTAIN, uncertainty_count := uncertainty_count st + 1 \<rparr>)
     \<and> (state st \<noteq> IN_PROGRESS \<longrightarrow> st' = st)
     \<and> uncertainty_events s' = uncertainty_events s @ evs
     \<and> evs = map (low_confidence_event ts)
                (filter (loses_confidence s (signal_map signals)) (step_order s))
     \<and> count_list evs (low_confidence_event ts k) = (if state st = IN_PROGRESS then 1 else 0)"
proof -
  from reachable_inv[of net ops cfg led] reach
  have w: "interp_wf s" by auto
  from unconfident_signal_step[OF w sess k nc nosig] show ?thesis .
qed

theorem unconfident_step_pauses_witness:
  "\<exists>s s' st'. interp_run wnet wops3 (Interp_init wcfg None) = Inr s
     \<and> truthy (session_id s)
     \<and> step_statuses s STEP_3 = Some \<lparr> step_id = STEP_3, orientation = NONE, state = IN_PROGRESS,
                    accumulated_ms = 150, completed_ts = None, uncertainty_count = 0 \<rparr>
     \<and> process_signals wnet [] 300 s = Inr s'
     \<and> step_statuses s' STEP_3 = Some st'
     \<and> state st' = UNCERTAIN \<and> uncertainty_count st' = 1 \<and> accumulated_ms st' = 150
     \<and> last_confident_ts s' STEP_3 = None
     \<and> uncertainty_events s' = uncertainty_events s @ [low_confidence_event 300 STEP_3]"
proof -
  from reachable_inv[of wnet wops3 wcfg None]
  obtain s where run: "interp_run wnet wops3 (Interp_init wcfg None) = Inr s" by blast
  have "case interp_run wnet wops3 (Interp_init wcfg None) of Inl _ \<Rightarrow> False
        | Inr s \<Rightarrow> truthy (session_id s)
           \<and> step_statuses s STEP_3 = Some \<lparr> step_id = STEP_3, orientation = NONE,
                 state = IN_PROGRESS, accumulated_ms = 150, completed_ts = None,
                 uncertainty_count = 0 \<rparr>
           \<and> filter (loses_confidence s (signal_map [])) (step_order s) = [STEP_3]"
    by code_simp
  with run have f: "truthy (session_id s)"
      "step_statuses s STEP_3 = Some \<lparr> step_id = STEP_3, orientation = NONE,
                 state = IN_PROGRESS, accumulated_ms = 150, completed_ts = None,
                 uncertainty_count = 0 \<rparr>"
      "filter (loses_confidence s (signal_map [])) (step_order s) = [STEP_3]"
    by simp_all
  have nc: "state \<lparr> step_id = STEP_3, orientation = NONE,
                 state = IN_PROGRESS, accumulated_ms = 150, completed_ts = None,
                 uncertainty_count = 0 \<rparr> \<noteq> COMPLETED" by simp
  have ns: "\<forall>sg\<in>set []. sig_step_id sg = STEP_3 \<longrightarrow> \<not> is_confident sg" by simp
  from unconfident_step_pauses[OF run f(1,2) nc ns, where ts = 300]
  obtain s' st' where r: "process_signals wnet [] 300 s = Inr s'"
     "step_statuses s' STEP_3 = Some st'" "last_confident_ts s' STEP_3 = None"
     "st' = \<lparr> step_id = STEP_3, orientation = NONE,
                 state = UNCERTAIN, accumulated_ms = 150, completed_ts = None,
                 uncertainty_count = 1 \<rparr>"
     "uncertainty_events s' = uncertainty_events s @ map (low_confidence_event 300)
                (filter (loses_confidence s (signal_map [])) (step_order s))"
    by auto
  from r(4) have "state st' = UNCERTAIN" "uncertainty_count st' = 1" "accumulated_ms st' = 150"
    by simp_all
  with run f r show ?thesis by auto
qed

text \<open>
  Claim C2. Every sequence of interpreter operations from a fresh interpreter runs
  without an exception and ends in a state where every \<open>StepStatus\<close> has
  \<open>accumulated_ms \<ge> 0\<close>, a \<open>COMPLETED\<close> status has \<open>accumulated_ms\<close> at least the
  configured \<open>duration_ms\<close> of its step and a \<open>completed_ts\<close>, and any other status has no
  \<open>completed_ts\<close>. A status that is \<open>COMPLETED\<close> stays exactly as it is (all fields)
  under all later \<open>process_signals\<close> and \<open>end_session\<close> calls, that is until the next
  \<open>start_session\<close>.
\<close>

theorem step_status_invariants:
  "\<exists>s. interp_run net ops (Interp_init cfg led) = Inr s
     \<and> (\<forall>k st. step_statuses s k = Some st \<longrightarrow>
           accumulated_ms st \<ge> 0
           \<and> (state st = COMPLETED \<longrightarrow>
                (\<exists>th. steps cfg (step_value k) = Some th \<and> accumulated_ms st \<ge> duration_ms th)
                \<and> completed_ts st \<noteq> None)
           \<and> (state st \<noteq> COMPLETED \<longrightarrow> completed_ts st = None)
           \<and> (state st = COMPLETED \<longrightarrow>
                (\<forall>later. (\<forall>x\<in>set later. \<not> (\<exists>sid ts. x = OpStartSession sid ts)) \<longrightarrow>
                   (\<exists>s'. interp_run net later s = Inr s' \<and> step_statuses s' k = Some st))))"
proof -
  from reachable_inv[of net ops cfg led]
  obtain s where s: "interp_run net ops (Interp_init cfg led) = Inr s" "interp_wf s" "status_inv s"
     "step_thresholds s = (\<lambda>k. steps cfg (step_value k))"
    by blast
  have "\<forall>k st. step_statuses s k = Some st \<longrightarrow>
           accumulated_ms st \<ge> 0
           \<and> (state st = COMPLETED \<longrightarrow>
                (\<exists>th. steps cfg (step_value k) = Some th \<and> accumulated_ms st \<ge> duration_ms th)
                \<and> completed_ts st \<noteq> None)
           \<and> (state st \<noteq> COMPLETED \<longrightarrow> completed_ts st = None)
           \<and> (state st = COMPLETED \<longrightarrow>
                (\<forall>later. (\<forall>x\<in>set later. \<not> (\<exists>sid ts. x = OpStartSession sid ts)) \<longrightarrow>
                   (\<exists>s'. interp_run net later s = Inr s' \<and> step_statuses s' k = Some st)))"
  proof (intro allI impI)
    fix k st assume k: "step_statuses s k = Some st"
    with s(3,4) have ok: "status_ok (steps cfg (step_value k)) st"
      by (simp add: status_inv_def)
    have fr: "state st = COMPLETED \<longrightarrow>
                (\<forall>later. (\<forall>x\<in>set later. \<not> (\<exists>sid ts. x = OpStartSession sid ts)) \<longrightarrow>
                   (\<exists>s'. interp_run net later s = Inr s' \<and> step_statuses s' k = Some st))"
      using no_start_run_frozen[OF s(2) k] by blast
    from ok fr show "accumulated_ms st \<ge> 0
           \<and> (state st = COMPLETED \<longrightarrow>
                (\<exists>th. steps cfg (step_value k) = Some th \<and> accumulated_ms st \<ge> duration_ms th)
                \<and> completed_ts st \<noteq> None)
           \<and> (state st \<noteq> COMPLETED \<longrightarrow> completed_ts st = None)
           \<and> (state st = COMPLETED \<longrightarrow>
                (\<forall>later. (\<forall>x\<in>set later. \<not> (\<exists>sid ts. x = OpStartSession sid ts)) \<longrightarrow>
                   (\<exists>s'. interp_run net later s = Inr s' \<and> step_statuses s' k = Some st)))"
      unfolding status_ok_def by blast
  qed
  with s(1) show ?thesis by blast
qed

theorem step_status_invariants_witness:
  "\<exists>s. interp_run wnet wops2 (Interp_init wcfg None) = Inr s
     \<and> step_statuses s STEP_2 = Some \<lparr> step_id = STEP_2, orientation = NONE, state = COMPLETED,
                    accumulated_ms = 300, completed_ts = Some 600, uncertainty_count = 0 \<rparr>
     \<and> steps wcfg (step_value STEP_2)
         = Some \<lparr> duration_ms = 300, confidence_min = 1/2, orientation_hint = None \<rparr>
     \<and> (\<exists>s'. interp_run wnet wlater s = Inr s'
              \<and> step_statuses s' STEP_2 = step_statuses s STEP_2)"
proof -
  from step_status_invariants[of wnet wops2 wcfg None]
  obtain s where run: "interp_run wnet wops2 (Interp_init wcfg None) = Inr s"
     and inv: "\<And>k st. step_statuses s k = Some st \<Longrightarrow> state st = COMPLETED \<Longrightarrow>
                (\<forall>later. (\<forall>x\<in>set later. \<not> (\<exists>sid ts. x = OpStartSession sid ts)) \<longrightarrow>
                   (\<exists>s'. interp_run wnet later s = Inr s' \<and> step_statuses s' k = Some st))"
    by blast
  have "case interp_run wnet wops2 (Interp_init wcfg None) of Inl _ \<Rightarrow> False
        | Inr s \<Rightarrow> step_statuses s STEP_2 = Some \<lparr> step_id = STEP_2, orientation = NONE,
                 state = COMPLETED, accumulated_ms = 300, completed_ts = Some 600,
                 uncertainty_count = 0 \<rparr>"
    by code_simp
  with run have f: "step_statuses s STEP_2 = Some \<lparr> step_id = STEP_2, orientation = NONE,
                 state = COMPLETED, accumulated_ms = 300, completed_ts = Some 600,
                 uncertainty_count = 0 \<rparr>"
    by simp
  have c: "steps wcfg (step_value STEP_2)
         = Some \<lparr> duration_ms = 300, confidence_min = 1/2, orientation_hint = None \<rparr>"
    by (simp add: wcfg_def wsteps_def VALID_STEP_IDS_def)
  have l: "\<forall>x\<in>set wlater. \<not> (\<exists>sid ts. x = OpStartSession sid ts)"
    by (simp add: wlater_def)
  from inv[OF f] l have "\<exists>s'. interp_run wnet wlater s = Inr s'
              \<and> step_statuses s' STEP_2 = step_statuses s STEP_2"
    using f by simp
  with run f c l show ?thesis by blast
qed


section \<open>Session gate\<close>

text \<open>
  Claim C10. When the metadata holds no \<open>int\<close> instance under \<open>hands_in_roi\<close> (the key
  is absent, or its value fails \<open>isinstance(value, int)\<close>), the gate uses the value it
  read for \<open>hand_count\<close> in its place, so \<open>gate_ok\<close> is decided by \<open>hand_count\<close> and
  the motion conditions alone; a \<open>hand_count\<close> that is absent or not an \<open>int\<close> instance
  counts as 0. The evaluation has no failing branch: it returns a boolean for every
  metadata map.
\<close>

theorem missing_hands_in_roi_defaults_to_hand_count:
  assumes "case metadata p ''hands_in_roi'' of None \<Rightarrow> True | Some v \<Rightarrow> \<not> isinstance_int v"
  shows "extract_int p ''hands_in_roi'' (extract_int p ''hand_count'' 0)
           = extract_int p ''hand_count'' 0
       \<and> meets_start_conditions cfg p =
           (extract_int p ''hand_count'' 0 \<ge> min_hands (session cfg)
            \<and> (require_motion (session cfg) \<longrightarrow>
                 mean_velocity (motion p) \<ge> motion_threshold (session cfg)
                 \<and> relative_motion (motion p) \<ge> relative_motion_threshold (session cfg)))
       \<and> ((case metadata p ''hand_count'' of None \<Rightarrow> True | Some v \<Rightarrow> \<not> isinstance_int v)
            \<longrightarrow> extract_int p ''hand_count'' 0 = 0)
       \<and> (\<forall>n. metadata p ''hand_count'' = Some (PInt n) \<longrightarrow> extract_int p ''hand_count'' 0 = n)"
proof -
  have a: "extract_int p ''hands_in_roi'' (extract_int p ''hand_count'' 0)
           = extract_int p ''hand_count'' 0"
    using assms by (auto simp: extract_int_def[of p "''hands_in_roi''"] split: option.splits)
  have b: "meets_start_conditions cfg p =
           (extract_int p ''hand_count'' 0 \<ge> min_hands (session cfg)
            \<and> (require_motion (session cfg) \<longrightarrow>
                 mean_velocity (motion p) \<ge> motion_threshold (session cfg)
                 \<and> relative_motion (motion p) \<ge> relative_motion_threshold (session cfg)))"
    unfolding meets_start_conditions_def Let_def a by auto
  have c: "(case metadata p ''hand_count'' of None \<Rightarrow> True | Some v \<Rightarrow> \<not> isinstance_int v)
            \<longrightarrow> extract_int p ''hand_count'' 0 = 0"
    by (auto simp: extract_int_def split: option.splits)
  have d: "\<forall>n. metadata p ''hand_count'' = Some (PInt n) \<longrightarrow> extract_int p ''hand_count'' 0 = n"
    by (simp add: extract_int_def)
  from a b c d show ?thesis by blast
qed

lemma deque_append_history:
  "deque_append n (drop (length h - n) h) g = drop (length (h @ [g]) - n) (h @ [g])"
proof -
  have "Suc (length h) - (length h - n + n) + (length h - n) = Suc (length h) - n" by arith
  then show ?thesis by (auto simp: deque_append_def)
qed

lemma process_frame_idle:
  assumes "\<not> session_active m"
  shows "process_frame cfg sid p m =
     (let w = deque_append (maxlen m) (start_window m) (meets_start_conditions cfg p) in
      if length w = maxlen m \<and> list_all (\<lambda>b. b) w
      then gate_start_session cfg sid (timestamp_ms p) (m\<lparr> start_window := w \<rparr>)
      else (m\<lparr> start_window := w \<rparr>, []))"
  using assms by (simp add: process_frame_def Let_def)

lemma window_at_head:
  "window_at n (h @ g # gs) (length h) = drop (length (h @ [g]) - n) (h @ [g])"
  by (simp add: window_at_def)

lemma gate_run_idle_prefix:
  assumes "\<not> session_active m" "start_window m = drop (length h - maxlen m) h"
      and "gate_run cfg (map (\<lambda>(i, p). Frame (ids i) p) (enumerate n packets)) m = (m', evs)"
      and "i < length packets"
      and "\<forall>j<i. \<not> window_complete_ok (maxlen m) (h @ map (meets_start_conditions cfg) packets) (length h + j)"
  shows "evs ! i =
     (if window_complete_ok (maxlen m) (h @ map (meets_start_conditions cfg) packets) (length h + i)
      then [started_event cfg (ids (n + i)) (timestamp_ms (packets ! i))] else [])
     \<and> (\<forall>j<i. evs ! j = [])"
  using assms
proof (induction packets arbitrary: m h n i evs m')
  case Nil
  then show ?case by simp
next
  case (Cons p ps)
  let ?g = "meets_start_conditions cfg p"
  let ?w = "deque_append (maxlen m) (start_window m) ?g"
  let ?gs = "map (meets_start_conditions cfg) ps"
  have w: "?w = drop (length (h @ [?g]) - maxlen m) (h @ [?g])"
    using Cons.prems(2) deque_append_history[of "maxlen m" h ?g] by simp
  have c0: "window_complete_ok (maxlen m) (h @ ?g # ?gs) (length h)
              = (length ?w = maxlen m \<and> list_all (\<lambda>b. b) ?w)"
    by (simp add: window_complete_ok_def window_at_head w)
  obtain m1 e1 where s1: "process_frame cfg (ids n) p m = (m1, e1)"
    by (cases "process_frame cfg (ids n) p m")
  obtain m2 rest where s2: "gate_run cfg (map (\<lambda>(i, p). Frame (ids i) p) (enumerate (Suc n) ps)) m1 = (m2, rest)"
    by (cases "gate_run cfg (map (\<lambda>(i, p). Frame (ids i) p) (enumerate (Suc n) ps)) m1")
  from Cons.prems(3) s1 s2 have evs: "evs = e1 # rest" by simp
  show ?case
  proof (cases i)
    case 0
    from s1 process_frame_idle[OF Cons.prems(1), of cfg "ids n" p]
    have "e1 = (if length ?w = maxlen m \<and> list_all (\<lambda>b. b) ?w
                then [started_event cfg (ids n) (timestamp_ms p)] else [])"
      by (auto simp: Let_def gate_start_session_def started_event_def split: if_splits)
    with 0 evs c0 show ?thesis by simp
  next
    case (Suc i')
    from Cons.prems(5) Suc have n0: "\<not> window_complete_ok (maxlen m) (h @ ?g # ?gs) (length h)"
      by (metis add.right_neutral list.simps(9) zero_less_Suc)
    with c0 have nw: "\<not> (length ?w = maxlen m \<and> list_all (\<lambda>b. b) ?w)" by simp
    from s1 process_frame_idle[OF Cons.prems(1), of cfg "ids n" p] nw
    have m1: "m1 = m\<lparr> start_window := ?w \<rparr>" "e1 = []"
      by (auto simp: Let_def)
    have i1: "\<not> session_active m1" using m1 Cons.prems(1) by simp
    have i2: "start_window m1 = drop (length (h @ [?g]) - maxlen m1) (h @ [?g])"
      using m1 w by simp
    have i4: "i' < length ps" using Cons.prems(4) Suc by simp
    have i5: "\<forall>j<i'. \<not> window_complete_ok (maxlen m1) ((h @ [?g]) @ ?gs) (length (h @ [?g]) + j)"
    proof (intro allI impI)
      fix j assume "j < i'"
      then have "Suc j < i" using Suc by simp
      with Cons.prems(5) have "\<not> window_complete_ok (maxlen m) (h @ map (meets_start_conditions cfg) (p # ps)) (length h + Suc j)"
        by blast
      then show "\<not> window_complete_ok (maxlen m1) ((h @ [?g]) @ ?gs) (length (h @ [?g]) + j)"
        using m1 by simp
    qed
    from Cons.IH[OF i1 i2 s2 i4 i5]
    have r: "rest ! i' =
       (if window_complete_ok (maxlen m1) ((h @ [?g]) @ ?gs) (length (h @ [?g]) + i')
        then [started_event cfg (ids (Suc n + i')) (timestamp_ms (ps ! i'))] else [])"
       "\<forall>j<i'. rest ! j = []" by simp_all
    have a: "evs ! i = (if window_complete_ok (maxlen m) (h @ map (meets_start_conditions cfg) (p # ps)) (length h + i)
      then [started_event cfg (ids (n + i)) (timestamp_ms ((p # ps) ! i))] else [])"
      using r(1) evs Suc m1 by simp
    have b: "\<forall>j<i. evs ! j = []"
    proof (intro allI impI)
      fix j assume j: "j < i"
      show "evs ! j = []"
      proof (cases j)
        case 0
        then show ?thesis using evs m1 by simp
      next
        case (Suc j')
        then have "j' < i'" using j \<open>i = Suc i'\<close> by simp
        with r(2) Suc evs show ?thesis by simp
      qed
    qed
    from a b show ?thesis by blast
  qed
qed

text \<open>
  Claim C4. An idle gate emits \<open>SessionStarted\<close> on a frame exactly when, after that
  frame's \<open>gate_ok\<close> value is appended, the sliding window holds \<open>start_window_frames\<close>
  entries that are all \<open>gate_ok\<close>; the event and the recorded session start carry that
  frame's \<open>timestamp_ms\<close>. For a stream fed to a fresh gate: on every frame before the
  first frame that completes such a window nothing is emitted, and on that frame exactly
  the \<open>SessionStarted\<close> event is.
\<close>

theorem session_starts_on_first_complete_window:
  assumes init: "SessionManager_init cfg = Inr m0"
      and run: "gate_run cfg (frames_of ids packets) m0 = (m, evs)"
      and i: "i < length packets"
      and first: "\<forall>j<i. \<not> window_complete_ok (nat (start_window_frames (session cfg)))
                             (map (meets_start_conditions cfg) packets) j"
  shows "evs ! i =
           (if window_complete_ok (nat (start_window_frames (session cfg)))
                 (map (meets_start_conditions cfg) packets) i
            then [started_event cfg (ids i) (timestamp_ms (packets ! i))] else [])
       \<and> (\<forall>j<i. evs ! j = [])
       \<and> (\<forall>m' sid p. \<not> session_active m' \<longrightarrow>
             (let w = deque_append (maxlen m') (start_window m') (meets_start_conditions cfg p);
                  (m'', out) = process_frame cfg sid p m'
              in if length w = maxlen m' \<and> list_all (\<lambda>b. b) w
                 then out = [started_event cfg sid (timestamp_ms p)] \<and> session_active m''
                      \<and> session_start_ts m'' = Some (timestamp_ms p)
                      \<and> current_session_id m'' = Some sid
                 else out = [] \<and> \<not> session_active m''))"
proof -
  from init have m0: "\<not> session_active m0" "start_window m0 = drop (length ([]::bool list) - maxlen m0) []"
      "maxlen m0 = nat (start_window_frames (session cfg))"
    by (auto simp: SessionManager_init_def split: if_splits)
  from run have run': "gate_run cfg (map (\<lambda>(i, p). Frame (ids i) p) (enumerate 0 packets)) m0 = (m, evs)"
    by (simp add: frames_of_def)
  have first': "\<forall>j<i. \<not> window_complete_ok (maxlen m0) ([] @ map (meets_start_conditions cfg) packets) (length ([]::bool list) + j)"
    using first m0(3) by simp
  from gate_run_idle_prefix[OF m0(1,2) run' i first']
  have a: "evs ! i =
           (if window_complete_ok (nat (start_window_frames (session cfg)))
                 (map (meets_start_conditions cfg) packets) i
            then [started_event cfg (ids i) (timestamp_ms (packets ! i))] else [])"
     and b: "\<forall>j<i. evs ! j = []"
    using m0(3) by simp_all
  have c: "\<forall>m' sid p. \<not> session_active m' \<longrightarrow>
             (let w = deque_append (maxlen m') (start_window m') (meets_start_conditions cfg p);
                  (m'', out) = process_frame cfg sid p m'
              in if length w = maxlen m' \<and> list_all (\<lambda>b. b) w
                 then out = [started_event cfg sid (timestamp_ms p)] \<and> session_active m''
                      \<and> session_start_ts m'' = Some (timestamp_ms p)
                      \<and> current_session_id m'' = Some sid
                 else out = [] \<and> \<not> session_active m'')"
    by (auto simp: process_frame_idle Let_def gate_start_session_def started_event_def)
  from a b c show ?thesis by blast
qed

theorem session_starts_on_first_complete_window_witness:
  "\<exists>m0 m evs. SessionManager_init wcfg = Inr m0
     \<and> gate_run wcfg (frames_of wids wstart_packets) m0 = (m, evs)
     \<and> (3::nat) < length wstart_packets
     \<and> \<not> window_complete_ok (nat (start_window_frames (session wcfg)))
                             (map (meets_start_conditions wcfg) wstart_packets) 0
     \<and> \<not> window_complete_ok (nat (start_window_frames (session wcfg)))
                             (map (meets_start_conditions wcfg) wstart_packets) 1
     \<and> \<not> window_complete_ok (nat (start_window_frames (session wcfg)))
                             (map (meets_start_conditions wcfg) wstart_packets) 2
     \<and> evs ! 3 = [started_event wcfg (wids 3) 300]
     \<and> evs ! 0 = [] \<and> evs ! 1 = [] \<and> evs ! 2 = []"
proof -
  obtain m0 where init: "SessionManager_init wcfg = Inr m0"
    by (simp add: SessionManager_init_def wcfg_def)
  obtain m evs where run: "gate_run wcfg (frames_of wids wstart_packets) m0 = (m, evs)"
    by (cases "gate_run wcfg (frames_of wids wstart_packets) m0")
  have len: "(3::nat) < length wstart_packets" by (simp add: wstart_packets_def)
  have gs: "map (meets_start_conditions wcfg) wstart_packets = [False, True, True, True]"
    by (simp add: wstart_packets_def wpacket_def meets_start_conditions_def extract_int_def wcfg_def)
  have n: "nat (start_window_frames (session wcfg)) = 3" by (simp add: wcfg_def)
  have first: "\<forall>j<3. \<not> window_complete_ok (nat (start_window_frames (session wcfg)))
                             (map (meets_start_conditions wcfg) wstart_packets) j"
    unfolding gs n by (auto simp: window_complete_ok_def window_at_def less_Suc_eq numeral_3_eq_3)
  have ok3: "window_complete_ok (nat (start_window_frames (session wcfg)))
                             (map (meets_start_conditions wcfg) wstart_packets) 3"
    unfolding gs n by (simp add: window_complete_ok_def window_at_def)
  have ts: "timestamp_ms (wstart_packets ! 3) = 300" by (simp add: wstart_packets_def wpacket_def)
  from session_starts_on_first_complete_window[OF init run len first] ok3 ts
  have "evs ! 3 = [started_event wcfg (wids 3) 300]" "\<forall>j<3. evs ! j = []" by simp_all
  then have "evs ! 3 = [started_event wcfg (wids 3) 300]" "evs ! 0 = []" "evs ! 1 = []" "evs ! 2 = []"
    by simp_all
  moreover from first have "\<not> window_complete_ok (nat (start_window_frames (session wcfg)))
                             (map (meets_start_conditions wcfg) wstart_packets) 0"
     "\<not> window_complete_ok (nat (start_window_frames (session wcfg)))
                             (map (meets_start_conditions wcfg) wstart_packets) 1"
     "\<not> window_complete_ok (nat (start_window_frames (session wcfg)))
                             (map (meets_start_conditions wcfg) wstart_packets) 2"
    by simp_all
  ultimately show ?thesis using init run len by blast
qed

theorem missing_hands_in_roi_defaults_to_hand_count_witness:
  "(case metadata wmeta_packet ''hands_in_roi'' of None \<Rightarrow> True | Some v \<Rightarrow> \<not> isinstance_int v)
   \<and> extract_int wmeta_packet ''hands_in_roi'' (extract_int wmeta_packet ''hand_count'' 0) = 2
   \<and> meets_start_conditions wcfg wmeta_packet"
proof -
  have h: "case metadata wmeta_packet ''hands_in_roi'' of None \<Rightarrow> True | Some v \<Rightarrow> \<not> isinstance_int v"
    by (simp add: wmeta_packet_def)
  have e: "extract_int wmeta_packet ''hand_count'' 0 = 2"
    by (simp add: wmeta_packet_def extract_int_def)
  have c: "min_hands (session wcfg) = 2" "require_motion (session wcfg)"
      "motion_threshold (session wcfg) = 2/5" "relative_motion_threshold (session wcfg) = 3/10"
      "mean_velocity (motion wmeta_packet) = 3/5" "relative_motion (motion wmeta_packet) = 7/20"
    by (simp_all add: wcfg_def wmeta_packet_def wpacket_def)
  from missing_hands_in_roi_defaults_to_hand_count[OF h, of wcfg] h e c
  show ?thesis by simp
qed

lemma gate_end_session_active:
  assumes "session_active m" "current_session_id m = Some sid" "session_start_ts m = Some st"
  shows "gate_end_session cfg ts reason m =
     (m\<lparr> session_active := False, current_session_id := None,
         session_start_ts := None, last_active_ts := None, start_window := [] \<rparr>,
      [ended_event cfg sid ts reason (max 0 (ts - st))])"
  using assms by (simp add: gate_end_session_def ended_event_def)

lemma process_frame_active:
  assumes "session_active m" "current_session_id m = Some sid" "session_start_ts m = Some st"
          "last_active_ts m = Some l"
  shows "process_frame cfg fresh p m =
     (let w = deque_append (maxlen m) (start_window m) (meets_start_conditions cfg p);
          ts = timestamp_ms p
      in if meets_start_conditions cfg p
         then (m\<lparr> start_window := w, last_active_ts := Some ts \<rparr>, [])
         else if ts - l \<ge> stop_timeout_ms (session cfg)
         then (m\<lparr> start_window := [], session_active := False, current_session_id := None,
                  session_start_ts := None, last_active_ts := None \<rparr>,
               [ended_event cfg sid ts ''timeout'' (max 0 (ts - st))])
         else (m\<lparr> start_window := w \<rparr>, []))"
  using assms
  by (simp add: process_frame_def Let_def gate_end_session_active)

lemma gate_step_inv:
  assumes "gate_inv m hi" "gate_step cfg x m = (m', out)"
          "\<forall>t\<in>set (op_timestamps [x]). hi \<le> t"
  shows "gate_inv m' (last (hi # op_timestamps [x]))"
proof (cases x)
  case Reset
  with assms show ?thesis
    by (auto simp: gate_reset_def gate_inv_def gate_end_session_def Let_def split: if_splits prod.splits option.splits bool.splits)
next
  case (Frame sid p)
  show ?thesis
  proof (cases "session_active m")
    case False
    with assms Frame show ?thesis
      by (auto simp: process_frame_idle Let_def gate_start_session_def gate_inv_def split: if_splits)
  next
    case True
    with assms(1) obtain cur st l where a: "current_session_id m = Some cur"
       "session_start_ts m = Some st" "last_active_ts m = Some l" "st \<le> l" "l \<le> hi"
      by (auto simp: gate_inv_def)
    from assms(2,3) Frame process_frame_active[OF True a(1,2,3), of cfg sid p] a
    show ?thesis
      by (auto simp: Let_def gate_inv_def split: if_splits)
  qed
qed

lemma gate_run_inv:
  assumes "gate_inv m hi" "gate_run cfg ops m = (m', evs)"
          "sorted (hi # op_timestamps ops)"
  shows "gate_inv m' (last (hi # op_timestamps ops))"
  using assms
proof (induction ops arbitrary: m hi evs m')
  case Nil
  then show ?case by simp
next
  case (Cons x xs)
  obtain m1 e1 where s1: "gate_step cfg x m = (m1, e1)" by (cases "gate_step cfg x m")
  obtain m2 rest where s2: "gate_run cfg xs m1 = (m2, rest)" by (cases "gate_run cfg xs m1")
  from Cons.prems(2) s1 s2 have m': "m' = m2" by simp
  show ?case
  proof (cases x)
    case Reset
    from gate_step_inv[OF Cons.prems(1) s1] Reset have i1: "gate_inv m1 hi" by simp
    from Cons.prems(3) Reset have "sorted (hi # op_timestamps xs)" by simp
    from Cons.IH[OF i1 s2 this] Reset m' show ?thesis by simp
  next
    case (Frame sid p)
    from Cons.prems(3) Frame have le: "hi \<le> timestamp_ms p" and so: "sorted (timestamp_ms p # op_timestamps xs)"
      by simp_all
    from gate_step_inv[OF Cons.prems(1) s1] Frame le have i1: "gate_inv m1 (timestamp_ms p)" by simp
    from Cons.IH[OF i1 s2 so] Frame m' show ?thesis by simp
  qed
qed

lemma op_timestamps_append:
  "op_timestamps (xs @ ys) = op_timestamps xs @ op_timestamps ys"
  by (induction xs rule: op_timestamps.induct) simp_all

lemma gate_reachable_inv:
  assumes init: "SessionManager_init cfg = Inr m0"
      and run: "gate_run cfg ops m0 = (m, evs)"
      and mono: "sorted (op_timestamps ops @ [t])"
  shows "gate_inv m t"
proof -
  let ?ts = "op_timestamps ops"
  let ?hi = "if ?ts = [] then t else hd ?ts"
  from init have i0: "gate_inv m0 ?hi"
    by (auto simp: SessionManager_init_def gate_inv_def split: if_splits)
  from mono have s: "sorted ?ts" and le: "\<forall>x\<in>set ?ts. x \<le> t"
    by (auto simp: sorted_append)
  have s2: "sorted (?hi # ?ts)" using s by (cases ?ts) auto
  from gate_run_inv[OF i0 run s2] have g: "gate_inv m (last (?hi # ?ts))" .
  have "last (?hi # ?ts) \<le> t" using le by (cases "?ts = []") auto
  with g show ?thesis by (auto simp: gate_inv_def)
qed

lemma gate_step_active_inv:
  assumes "gate_active_inv m" "gate_step cfg x m = (m', out)"
  shows "gate_active_inv m'"
proof (cases x)
  case Reset
  with assms show ?thesis
    by (auto simp: gate_reset_def gate_active_inv_def gate_end_session_def Let_def
             split: if_splits prod.splits option.splits bool.splits)
next
  case (Frame sid p)
  show ?thesis
  proof (cases "session_active m")
    case False
    with assms Frame show ?thesis
      by (auto simp: process_frame_idle Let_def gate_start_session_def gate_active_inv_def
               split: if_splits)
  next
    case True
    with assms(1) obtain cur st l where a: "current_session_id m = Some cur"
       "session_start_ts m = Some st" "last_active_ts m = Some l"
      by (auto simp: gate_active_inv_def)
    from assms(2) Frame process_frame_active[OF True a, of cfg sid p] a
    show ?thesis
      by (auto simp: Let_def gate_active_inv_def split: if_splits)
  qed
qed

lemma gate_run_active_inv:
  assumes "gate_active_inv m" "gate_run cfg ops m = (m', evs)"
  shows "gate_active_inv m'"
  using assms
proof (induction ops arbitrary: m evs m')
  case Nil
  then show ?case by simp
next
  case (Cons x xs)
  obtain m1 e1 where s1: "gate_step cfg x m = (m1, e1)" by (cases "gate_step cfg x m")
  obtain m2 rest where s2: "gate_run cfg xs m1 = (m2, rest)" by (cases "gate_run cfg xs m1")
  from Cons.prems(2) s1 s2 have m': "m' = m2" by simp
  from Cons.IH[OF gate_step_active_inv[OF Cons.prems(1) s1] s2] m' show ?case by simp
qed

lemma gate_reachable_active_inv:
  assumes init: "SessionManager_init cfg = Inr m0"
      and run: "gate_run cfg ops m0 = (m, evs)"
  shows "gate_active_inv m"
proof -
  from init have "gate_active_inv m0"
    by (auto simp: SessionManager_init_def gate_active_inv_def split: if_splits)
  from gate_run_active_inv[OF this run] show ?thesis .
qed

text \<open>
  Claim C5, as stated, fails: nothing orders the timestamps the gate is fed (the live
  source stamps frames with the wall clock). A session starts on a frame stamped 1000;
  a \<open>gate_ok\<close> frame stamped 100 sets \<open>last_active_ts = 100\<close>; the next frame, not
  \<open>gate_ok\<close> and stamped 600, meets \<open>ts - last_active_ts \<ge> stop_timeout_ms = 500\<close> and
  ends the session with \<open>duration_ms = 0\<close>, where the claim has
  \<open>ts - session_start_ts = -400\<close>.
\<close>

theorem timeout_duration_counterexample:
  "(case SessionManager_init wcfg of
      Inl _ \<Rightarrow> False
    | Inr m0 \<Rightarrow>
       (case gate_run wcfg wback_ops m0 of (m, evs) \<Rightarrow>
          session_active m \<and> session_start_ts m = Some 1000 \<and> last_active_ts m = Some 100
          \<and> \<not> meets_start_conditions wcfg (wpacket 600 (1/10) (1/20) 2)
          \<and> timestamp_ms (wpacket 600 (1/10) (1/20) 2) - 100 \<ge> stop_timeout_ms (session wcfg)
          \<and> snd (process_frame wcfg ''f'' (wpacket 600 (1/10) (1/20) 2) m)
               = [ended_event wcfg ''c'' 600 ''timeout'' 0]
          \<and> timestamp_ms (wpacket 600 (1/10) (1/20) 2) - 1000 = - 400))"
  by code_simp

text \<open>
  Claim C5, amended. Take a gate fed any frames and resets, and let a session be active.
  The next frame, with timestamp \<open>ts\<close>: if it is \<open>gate_ok\<close> it emits nothing, keeps the
  session active and sets \<open>last_active_ts = ts\<close>; if it is not \<open>gate_ok\<close> and
  \<open>ts - last_active_ts \<ge> stop_timeout_ms\<close> it emits exactly \<open>SessionEnded\<close> with reason
  \<open>timeout\<close>, timestamp \<open>ts\<close> and \<open>duration_ms = max(0, ts - session_start_ts)\<close>, and the
  gate is idle afterwards; otherwise it emits nothing and the session stays active with
  \<open>last_active_ts\<close> unchanged. So the timeout end falls on the first frame that meets the
  condition. When the timestamps fed so far, with \<open>ts\<close>, are non-decreasing, then
  \<open>session_start_ts \<le> last_active_ts \<le> ts\<close> and the duration is \<open>ts - session_start_ts\<close>.
\<close>

theorem session_ends_on_timeout_frame:
  assumes init: "SessionManager_init cfg = Inr m0"
      and run: "gate_run cfg ops m0 = (m, evs)"
      and act: "session_active m"
  shows "\<exists>cur st l. current_session_id m = Some cur \<and> session_start_ts m = Some st
           \<and> last_active_ts m = Some l
           \<and> (case process_frame cfg fresh p m of (m', out) \<Rightarrow>
                 if meets_start_conditions cfg p
                 then out = [] \<and> session_active m' \<and> last_active_ts m' = Some (timestamp_ms p)
                      \<and> session_start_ts m' = Some st \<and> current_session_id m' = Some cur
                 else if timestamp_ms p - l \<ge> stop_timeout_ms (session cfg)
                 then out = [ended_event cfg cur (timestamp_ms p) ''timeout''
                               (max 0 (timestamp_ms p - st))]
                      \<and> \<not> session_active m' \<and> start_window m' = []
                 else out = [] \<and> session_active m' \<and> last_active_ts m' = Some l
                      \<and> session_start_ts m' = Some st \<and> current_session_id m' = Some cur)
           \<and> (sorted (op_timestamps ops @ [timestamp_ms p]) \<longrightarrow>
                 st \<le> l \<and> l \<le> timestamp_ms p
                 \<and> max 0 (timestamp_ms p - st) = timestamp_ms p - st)"
proof -
  from gate_reachable_active_inv[OF init run] act
  obtain cur st l where a: "current_session_id m = Some cur" "session_start_ts m = Some st"
      "last_active_ts m = Some l"
    by (auto simp: gate_active_inv_def)
  have o: "sorted (op_timestamps ops @ [timestamp_ms p]) \<longrightarrow>
             st \<le> l \<and> l \<le> timestamp_ms p \<and> max 0 (timestamp_ms p - st) = timestamp_ms p - st"
  proof
    assume "sorted (op_timestamps ops @ [timestamp_ms p])"
    from gate_reachable_inv[OF init run this] act a
    show "st \<le> l \<and> l \<le> timestamp_ms p \<and> max 0 (timestamp_ms p - st) = timestamp_ms p - st"
      by (auto simp: gate_inv_def)
  qed
  have c: "case process_frame cfg fresh p m of (m', out) \<Rightarrow>
                 if meets_start_conditions cfg p
                 then out = [] \<and> session_active m' \<and> last_active_ts m' = Some (timestamp_ms p)
                      \<and> session_start_ts m' = Some st \<and> current_session_id m' = Some cur
                 else if timestamp_ms p - l \<ge> stop_timeout_ms (session cfg)
                 then out = [ended_event cfg cur (timestamp_ms p) ''timeout''
                               (max 0 (timestamp_ms p - st))]
                      \<and> \<not> session_active m' \<and> start_window m' = []
                 else out = [] \<and> session_active m' \<and> last_active_ts m' = Some l
                      \<and> session_start_ts m' = Some st \<and> current_session_id m' = Some cur"
    using a act by (simp add: process_frame_active[OF act a] Let_def)
  from a c o show ?thesis
    by - (rule exI[of _ cur], rule exI[of _ st], rule exI[of _ l],
          (rule conjI, assumption)+, assumption)
qed

theorem session_ends_on_timeout_frame_witness:
  "\<exists>m0 m evs m' out. SessionManager_init wcfg = Inr m0
     \<and> gate_run wcfg wactive_ops m0 = (m, evs)
     \<and> sorted (op_timestamps wactive_ops @ [timestamp_ms (wpacket 700 (1/10) (1/20) 2)])
     \<and> session_active m
     \<and> \<not> meets_start_conditions wcfg (wpacket 700 (1/10) (1/20) 2)
     \<and> last_active_ts m = Some 200 \<and> session_start_ts m = Some 200
     \<and> process_frame wcfg ''f'' (wpacket 700 (1/10) (1/20) 2) m = (m', out)
     \<and> out = [ended_event wcfg ''c'' 700 ''timeout'' 500]
     \<and> \<not> session_active m'"
proof -
  obtain m0 where init: "SessionManager_init wcfg = Inr m0"
    by (simp add: SessionManager_init_def wcfg_def)
  obtain m evs where run: "gate_run wcfg wactive_ops m0 = (m, evs)"
    by (cases "gate_run wcfg wactive_ops m0")
  let ?p = "wpacket 700 (1/10) (1/20) 2"
  have mono: "sorted (op_timestamps wactive_ops @ [timestamp_ms ?p])"
    by (simp add: wactive_ops_def wpacket_def)
  have ev: "case SessionManager_init wcfg of Inl _ \<Rightarrow> False
            | Inr m0 \<Rightarrow> (case gate_run wcfg wactive_ops m0 of (m, evs) \<Rightarrow>
                 session_active m \<and> last_active_ts m = Some 200 \<and> session_start_ts m = Some 200
                 \<and> current_session_id m = Some ''c'')"
    by code_simp
  with init run have f: "session_active m" "last_active_ts m = Some 200"
      "session_start_ts m = Some 200" "current_session_id m = Some ''c''"
    by simp_all
  have ng: "\<not> meets_start_conditions wcfg ?p"
    by (simp add: wpacket_def meets_start_conditions_def extract_int_def wcfg_def)
  have t: "timestamp_ms ?p = 700" "stop_timeout_ms (session wcfg) = 500"
    by (simp_all add: wpacket_def wcfg_def)
  obtain m' out where pf: "process_frame wcfg ''f'' ?p m = (m', out)"
    by (cases "process_frame wcfg ''f'' ?p m")
  from session_ends_on_timeout_frame[OF init run f(1), where fresh = "''f''" and p = ?p] f ng t pf
  have "out = [ended_event wcfg ''c'' 700 ''timeout'' 500]" "\<not> session_active m'"
    by simp_all
  with init run mono f ng pf show ?thesis by blast
qed


section \<open>Replay\<close>


text \<open>The frame interval at some frame rates: 25, 26.666666666666668 (the float quotient
  is exactly 37.5, which rounds to 38), 153.84615384615384, \<open>2 ^ - 1030\<close> (the quotient
  overflows), NaN and infinity.\<close>

lemma frame_interval_ms_examples:
  "frame_interval_ms (wfast_asset\<lparr> fps := float_of_nat 25 \<rparr>) = Inr 40"
  "frame_interval_ms (wfast_asset\<lparr> fps := FFinite False 7505999378950827 (- 48) \<rparr>) = Inr 38"
  "frame_interval_ms (wfast_asset\<lparr> fps := FFinite False 5412980321358769 (- 45) \<rparr>) = Inr 6"
  "frame_interval_ms (wfast_asset\<lparr> fps := FFinite False 17592186044416 (- 1074) \<rparr>)
     = Inl OverflowError"
  "frame_interval_ms (wfast_asset\<lparr> fps := FNaN \<rparr>) = Inl ValueError"
  "frame_interval_ms (wfast_asset\<lparr> fps := FInf False \<rparr>) = Inr 1"
  by code_simp+









section \<open>Replay verification\<close>

lemma set_dict_keys [simp]: "set (dict_keys xs) = set xs"
  by (induction xs) auto

lemma snapshot_dict_snoc:
  "snapshot_dict (sts @ [st]) = (snapshot_dict sts)(step_id st \<mapsto> st)"
  by (simp add: snapshot_dict_def)

lemma snapshot_dict_dom:
  "snapshot_dict sts k = Some st \<Longrightarrow> k \<in> step_id ` set sts"
proof (induction sts rule: rev_induct)
  case Nil
  then show ?case by (simp add: snapshot_dict_def)
next
  case (snoc x xs)
  then show ?case by (auto simp: snapshot_dict_snoc split: if_splits)
qed

lemma step_errors_Nil:
  "step_errors cfg anns snap k = [] \<longleftrightarrow>
     ((annotation_duration anns k
         \<ge> (case steps cfg (step_value k) of None \<Rightarrow> 0 | Some th \<Rightarrow> duration_ms th))
       = (case snap k of None \<Rightarrow> False | Some st \<Rightarrow> state st = COMPLETED))
     \<and> (\<forall>st ori. snap k = Some st \<and> state st = COMPLETED \<and> last_orientation anns k = Some ori
            \<and> ori \<noteq> NONE \<longrightarrow> orientation st = ori)"
  by (auto simp: step_errors_def Let_def split: option.splits)

lemma verify_errors_Nil:
  "verify_errors cfg anns sts = [] \<longleftrightarrow>
     completed_steps sts = expected_steps cfg anns
     \<and> (\<forall>k st ori. snapshot_dict sts k = Some st \<and> state st = COMPLETED
            \<and> last_orientation anns k = Some ori \<and> ori \<noteq> NONE \<longrightarrow> orientation st = ori)"
  (is "?L \<longleftrightarrow> ?S \<and> ?O")
proof -
  let ?snap = "snapshot_dict sts"
  let ?did = "\<lambda>k. case ?snap k of None \<Rightarrow> False | Some st \<Rightarrow> state st = COMPLETED"
  let ?should = "\<lambda>k. annotation_duration anns k
         \<ge> (case steps cfg (step_value k) of None \<Rightarrow> 0 | Some th \<Rightarrow> duration_ms th)"
  let ?ann = "an_step_id ` set anns"
  have no_ann_ori: "\<And>k. k \<notin> ?ann \<Longrightarrow> last_orientation anns k = None"
  proof -
    fix k assume "k \<notin> ?ann"
    then have "filter (\<lambda>a. an_step_id a = k) anns = []"
      by (auto simp: filter_empty_conv)
    then show "last_orientation anns k = None" by (simp add: last_orientation_def)
  qed
  have L: "?L \<longleftrightarrow>
      (\<forall>k\<in>?ann. step_errors cfg anns ?snap k = [])
      \<and> (\<forall>k\<in>step_id ` set sts. \<forall>st. ?snap k = Some st \<longrightarrow> \<not> (k \<notin> ?ann \<and> state st = COMPLETED))"
    by (auto simp: verify_errors_def Let_def split: option.splits)
  have S: "?S \<longleftrightarrow> (\<forall>k. ?did k = (k \<in> ?ann \<and> ?should k))"
    by (auto simp: completed_steps_def expected_steps_def)
  show ?thesis
  proof
    assume l: ?L
    with L have a: "\<forall>k\<in>?ann. step_errors cfg anns ?snap k = []"
      and b: "\<forall>k\<in>step_id ` set sts. \<forall>st. ?snap k = Some st \<longrightarrow> \<not> (k \<notin> ?ann \<and> state st = COMPLETED)"
      by blast+
    have s: "\<forall>k. ?did k = (k \<in> ?ann \<and> ?should k)"
    proof
      fix k
      show "?did k = (k \<in> ?ann \<and> ?should k)"
      proof (cases "k \<in> ?ann")
        case True
        with a have "step_errors cfg anns ?snap k = []" by blast
        then show ?thesis using True by (simp add: step_errors_Nil)
      next
        case False
        have "\<not> ?did k"
        proof
          assume "?did k"
          then obtain st where st: "?snap k = Some st" "state st = COMPLETED"
            by (auto split: option.splits)
          from snapshot_dict_dom[OF st(1)] b st False show False by blast
        qed
        with False show ?thesis by simp
      qed
    qed
    have o: ?O
    proof (intro allI impI)
      fix k st ori
      assume h: "?snap k = Some st \<and> state st = COMPLETED
            \<and> last_orientation anns k = Some ori \<and> ori \<noteq> NONE"
      then have "k \<in> ?ann" using no_ann_ori[of k] by auto
      with a have "step_errors cfg anns ?snap k = []" by blast
      with h show "orientation st = ori" by (simp add: step_errors_Nil)
    qed
    from s o S show "?S \<and> ?O" by blast
  next
    assume r: "?S \<and> ?O"
    with S have s: "\<forall>k. ?did k = (k \<in> ?ann \<and> ?should k)" and o: ?O by blast+
    have a: "\<forall>k\<in>?ann. step_errors cfg anns ?snap k = []"
    proof
      fix k assume "k \<in> ?ann"
      with s have "?should k = ?did k" by blast
      with o show "step_errors cfg anns ?snap k = []"
        unfolding step_errors_Nil by blast
    qed
    have b: "\<forall>k\<in>step_id ` set sts. \<forall>st. ?snap k = Some st \<longrightarrow> \<not> (k \<notin> ?ann \<and> state st = COMPLETED)"
    proof (intro ballI allI impI)
      fix k st assume "?snap k = Some st"
      then have "state st = COMPLETED \<Longrightarrow> ?did k" by simp
      with s show "\<not> (k \<notin> ?ann \<and> state st = COMPLETED)" by blast
    qed
    from a b L show ?L by blast
  qed
qed


lemma completed_wtwo: "completed_steps wtwo_snapshot = {STEP_3}"
proof -
  have "\<And>k. (case snapshot_dict wtwo_snapshot k of None \<Rightarrow> False | Some st \<Rightarrow> state st = COMPLETED)
            = (k = STEP_3)"
    by (case_tac k) (simp_all add: snapshot_dict_def wtwo_snapshot_def new_status_def)
  then show ?thesis by (auto simp: completed_steps_def)
qed

lemma expected_wtwo: "expected_steps wcfg (annotations wtwo_asset) = {STEP_3}"
  by (auto simp: expected_steps_def wtwo_asset_def annotation_duration_def wcfg_def wsteps_def
        VALID_STEP_IDS_def)

lemma replay_wtwo:
  "case DemoApp_init wcfg of Inl _ \<Rightarrow> False
     | Inr app \<Rightarrow> (case demo_replay wnet wids wcfg wtwo_manifest ''two'' app of Inl _ \<Rightarrow> False
          | Inr app' \<Rightarrow> snapshot (da_interp app') = wtwo_snapshot)"
  by code_simp

lemma errors_wtwo:
  "verify_errors wcfg (annotations wtwo_asset) wtwo_snapshot = [OrientationMismatch STEP_3]"
  by code_simp

text \<open>
  Claim C7, as stated, fails. Replay an asset whose step 3 is annotated twice, first
  \<open>LEFT_OVER_RIGHT\<close> and then \<open>RIGHT_OVER_LEFT\<close>, each 400 ms against a threshold of
  300 ms. The interpreter completes step 3 during the first annotation and keeps
  \<open>LEFT_OVER_RIGHT\<close>; the completed set \<open>{STEP_3}\<close> equals the set of annotated steps
  whose summed duration reaches the threshold, yet \<open>_verify_asset\<close> reports an
  orientation mismatch and \<open>DemoApp.run\<close> exits with code 3.
\<close>

theorem verify_pass_counterexample:
  "demo_final_snapshot wnet wids wcfg wtwo_manifest ''two'' = Inr wtwo_snapshot
   \<and> completed_steps wtwo_snapshot = {STEP_3}
   \<and> expected_steps wcfg (annotations wtwo_asset) = {STEP_3}
   \<and> verify_errors wcfg (annotations wtwo_asset) wtwo_snapshot = [OrientationMismatch STEP_3]
   \<and> demo_run wnet wids wcfg wtwo_manifest ''two'' True = Inr 3"
proof -
  from replay_wtwo obtain app app' where
    r: "DemoApp_init wcfg = Inr app" "demo_replay wnet wids wcfg wtwo_manifest ''two'' app = Inr app'"
       "snapshot (da_interp app') = wtwo_snapshot"
    by (auto split: sum.splits)
  have a: "assets wtwo_manifest ''two'' = Some wtwo_asset" by (simp add: wtwo_manifest_def)
  from r have s: "demo_final_snapshot wnet wids wcfg wtwo_manifest ''two'' = Inr wtwo_snapshot"
    by (simp add: demo_final_snapshot_def)
  from r a errors_wtwo have v: "demo_run wnet wids wcfg wtwo_manifest ''two'' True = Inr 3"
    by (simp add: demo_run_def verify_asset_def)
  from s v completed_wtwo expected_wtwo errors_wtwo show ?thesis by simp
qed

text \<open>
  Claim C7, amended. For an asset of the manifest, \<open>_verify_asset\<close> returns PASS exactly
  when the set of steps the interpreter marked \<open>COMPLETED\<close> equals the set of annotated
  steps whose summed annotation duration is at least the config's \<open>duration_ms\<close> for
  the step, and in addition every completed step whose last annotation names an
  orientation other than \<open>NONE\<close> has that orientation.
\<close>

theorem verify_asset_pass_iff:
  assumes "assets manifest aid = Some a"
  shows "verify_asset cfg manifest app aid =
     Inr (completed_steps (snapshot (da_interp app)) = expected_steps cfg (annotations a)
          \<and> (\<forall>k st ori. snapshot_dict (snapshot (da_interp app)) k = Some st
                \<and> state st = COMPLETED \<and> last_orientation (annotations a) k = Some ori
                \<and> ori \<noteq> NONE \<longrightarrow> orientation st = ori))"
  using assms by (simp add: verify_asset_def verify_errors_Nil)

lemma replay_wone:
  "case DemoApp_init wcfg of Inl _ \<Rightarrow> False
     | Inr app \<Rightarrow> (case demo_replay wnet wids wcfg wone_manifest ''one'' app of Inl _ \<Rightarrow> False
          | Inr app' \<Rightarrow> snapshot (da_interp app') = wone_snapshot)"
  by code_simp

lemma errors_wone: "verify_errors wcfg (annotations wone_asset) wone_snapshot = []"
  by code_simp

theorem verify_asset_pass_iff_witness:
  "\<exists>app app'. assets wone_manifest ''one'' = Some wone_asset
     \<and> DemoApp_init wcfg = Inr app
     \<and> demo_replay wnet wids wcfg wone_manifest ''one'' app = Inr app'
     \<and> snapshot (da_interp app') = wone_snapshot
     \<and> verify_asset wcfg wone_manifest app' ''one'' = Inr True
     \<and> completed_steps (snapshot (da_interp app')) = expected_steps wcfg (annotations wone_asset)"
proof -
  from replay_wone obtain app app' where
    r: "DemoApp_init wcfg = Inr app" "demo_replay wnet wids wcfg wone_manifest ''one'' app = Inr app'"
       "snapshot (da_interp app') = wone_snapshot"
    by (auto split: sum.splits)
  have a: "assets wone_manifest ''one'' = Some wone_asset" by (simp add: wone_manifest_def)
  have v: "verify_asset wcfg wone_manifest app' ''one'' = Inr True"
    using a r(3) errors_wone by (simp add: verify_asset_def)
  from verify_asset_pass_iff[OF a, of wcfg app'] v
  have "completed_steps (snapshot (da_interp app')) = expected_steps wcfg (annotations wone_asset)"
    by simp
  with a r v show ?thesis by blast
qed


section \<open>Replay determinism\<close>

lemma update_step_det:
  assumes u1: "update_step net1 k st th sg ts sp1 = Inr sq1"
      and u2: "update_step net2 k st th sg ts sp2 = Inr sq2"
      and idk: "step_id st = k"
      and t1: "step_thresholds sp1 k \<noteq> None" and t2: "step_thresholds sp2 k \<noteq> None"
      and l: "last_confident_ts sp1 k = last_confident_ts sp2 k"
      and s1: "step_statuses sp1 k = Some st" and s2: "step_statuses sp2 k = Some st"
      and tr1: "truthy (session_id sp1)" and tr2: "truthy (session_id sp2)"
  shows "step_statuses sq1 k = step_statuses sq2 k
       \<and> last_confident_ts sq1 k = last_confident_ts sq2 k"
proof -
  consider (fin) "state st = COMPLETED"
    | (conf) c where "state st \<noteq> COMPLETED" "sg = Some c" "is_confident c"
    | (unconf) "state st \<noteq> COMPLETED" "sg = None \<or> (\<exists>c. sg = Some c \<and> \<not> is_confident c)"
    by (cases sg) auto
  then show ?thesis
  proof cases
    case fin
    with u1 u2 have "sq1 = sp1" "sq2 = sp2" by (simp_all add: update_step_completed)
    with l s1 s2 show ?thesis by simp
  next
    case conf
    from update_step_confident[OF conf(1) idk t1 conf(3), of net1 th ts] u1 conf(2)
    have a: "step_statuses sq1 = (step_statuses sp1)(k \<mapsto> fst (confident_update c st th sp1))"
        "last_confident_ts sq1 = last_confident_ts (snd (confident_update c st th sp1))"
      by simp_all
    from update_step_confident[OF conf(1) idk t2 conf(3), of net2 th ts] u2 conf(2)
    have b: "step_statuses sq2 = (step_statuses sp2)(k \<mapsto> fst (confident_update c st th sp2))"
        "last_confident_ts sq2 = last_confident_ts (snd (confident_update c st th sp2))"
      by simp_all
    show ?thesis
      using a b l idk
      by (simp add: confident_update_status[OF conf(1)] confident_update_state[OF conf(1)])
  next
    case unconf
    from update_step_unconfident[OF unconf(1) idk t1 unconf(2) tr1, of net1 th ts] u1
    have a: "step_statuses sq1 = (step_statuses sp1)(k \<mapsto> fst (unconfident_update st ts sp1))"
        "last_confident_ts sq1 = (last_confident_ts sp1)(k := None)"
      by simp_all
    from update_step_unconfident[OF unconf(1) idk t2 unconf(2) tr2, of net2 th ts] u2
    have b: "step_statuses sq2 = (step_statuses sp2)(k \<mapsto> fst (unconfident_update st ts sp2))"
        "last_confident_ts sq2 = (last_confident_ts sp2)(k := None)"
      by simp_all
    show ?thesis using a b by (simp add: unconfident_update_status)
  qed
qed

lemma loses_confidence_cong:
  "step_statuses s = step_statuses t \<Longrightarrow> loses_confidence s sm = loses_confidence t sm"
  by (simp add: loses_confidence_def fun_eq_iff)

lemma process_signals_rel:
  assumes r: "interp_rel s t" and tr: "truthy (session_id s)"
  shows "\<exists>s' t'. process_signals net1 sigs ts s = Inr s' \<and> process_signals net2 sigs ts t = Inr t'
           \<and> interp_rel s' t'"
proof -
  from r have ws: "interp_wf s" and wt: "interp_wf t"
     and e: "step_thresholds s = step_thresholds t" "step_order s = step_order t"
        "step_statuses s = step_statuses t" "last_confident_ts s = last_confident_ts t"
        "uncertainty_events s = uncertainty_events t"
     and trt: "truthy (session_id t)"
    using tr by (simp_all add: interp_rel_def)
  from process_signals_frame[OF ws tr, of net1 sigs ts]
  obtain s' where s': "process_signals net1 sigs ts s = Inr s'"
      "step_thresholds s' = step_thresholds s" "step_order s' = step_order s"
      "session_id s' = session_id s" "interp_wf s'"
      "uncertainty_events s' = uncertainty_events s @
          map (low_confidence_event ts) (filter (loses_confidence s (signal_map sigs)) (step_order s))"
      "\<forall>j. j \<notin> set (step_order s) \<longrightarrow> last_confident_ts s' j = last_confident_ts s j"
    by blast
  from process_signals_frame[OF wt trt, of net2 sigs ts]
  obtain t' where t': "process_signals net2 sigs ts t = Inr t'"
      "step_thresholds t' = step_thresholds t" "step_order t' = step_order t"
      "session_id t' = session_id t" "interp_wf t'"
      "uncertainty_events t' = uncertainty_events t @
          map (low_confidence_event ts) (filter (loses_confidence t (signal_map sigs)) (step_order t))"
      "\<forall>j. j \<notin> set (step_order t) \<longrightarrow> last_confident_ts t' j = last_confident_ts t j"
    by blast
  have ev: "uncertainty_events s' = uncertainty_events t'"
    using s'(6) t'(6) e loses_confidence_cong[OF e(3)] by simp
  have each: "\<And>k. step_statuses s' k = step_statuses t' k
                    \<and> last_confident_ts s' k = last_confident_ts t' k"
  proof -
    fix k
    show "step_statuses s' k = step_statuses t' k \<and> last_confident_ts s' k = last_confident_ts t' k"
    proof (cases "k \<in> set (step_order s)")
      case False
      have "step_statuses s' k = None" using False s'(3,5) unfolding interp_wf_def
        by (metis not_None_eq)
      moreover have "step_statuses t' k = None" using False t'(3,5) e(2) unfolding interp_wf_def
        by (metis not_None_eq)
      ultimately show ?thesis using s'(7) t'(7) False e by simp
    next
      case True
      from wf_loop_pre[OF ws tr] True obtain st th where
        k: "step_statuses s k = Some st" "step_id st = k" "step_thresholds s k = Some th"
        by blast
      from process_signals_at[OF ws tr k(1,3), of net1 sigs ts] s'(1)
      obtain sp1 sq1 where p1: "truthy (session_id sp1)" "step_thresholds sp1 k = Some th"
          "step_statuses sp1 k = Some st" "last_confident_ts sp1 k = last_confident_ts s k"
          "update_step net1 k st th (signal_map sigs k) ts sp1 = Inr sq1"
          "step_statuses s' k = step_statuses sq1 k"
          "last_confident_ts s' k = last_confident_ts sq1 k"
        by auto
      have kt: "step_statuses t k = Some st" "step_thresholds t k = Some th" using k e by simp_all
      from process_signals_at[OF wt trt kt, of net2 sigs ts] t'(1)
      obtain sp2 sq2 where p2: "truthy (session_id sp2)" "step_thresholds sp2 k = Some th"
          "step_statuses sp2 k = Some st" "last_confident_ts sp2 k = last_confident_ts t k"
          "update_step net2 k st th (signal_map sigs k) ts sp2 = Inr sq2"
          "step_statuses t' k = step_statuses sq2 k"
          "last_confident_ts t' k = last_confident_ts sq2 k"
        by auto
      have l: "last_confident_ts sp1 k = last_confident_ts sp2 k" using p1(4) p2(4) e by simp
      from update_step_det[OF p1(5) p2(5) k(2) _ _ l p1(3) p2(3) p1(1) p2(1)] p1(2) p2(2)
      have "step_statuses sq1 k = step_statuses sq2 k
            \<and> last_confident_ts sq1 k = last_confident_ts sq2 k"
        by simp
      with p1(6,7) p2(6,7) show ?thesis by simp
    qed
  qed
  then have st: "step_statuses s' = step_statuses t'" and lc: "last_confident_ts s' = last_confident_ts t'"
    by (auto simp: fun_eq_iff)
  have "interp_rel s' t'"
    using s' t' e ev st lc tr trt by (simp add: interp_rel_def)
  with s'(1) t'(1) show ?thesis by blast
qed


lemma start_session_rel:
  assumes r: "interp_rel s t" and i: "i \<noteq> []" and j: "j \<noteq> []"
  shows "\<exists>s' t'. start_session net1 i ts s = Inr s' \<and> start_session net2 j ts t = Inr t'
           \<and> interp_rel s' t' \<and> truthy (session_id s') \<and> truthy (session_id t')"
proof -
  from r have ws: "interp_wf s" and wt: "interp_wf t"
     and e: "step_thresholds s = step_thresholds t" "step_order s = step_order t"
    by (simp_all add: interp_rel_def)
  from ws have a: "distinct (step_order s)" "\<forall>k \<in> set (step_order s). step_thresholds s k \<noteq> None"
    by (simp_all add: interp_wf_def)
  from wt have b: "distinct (step_order t)" "\<forall>k \<in> set (step_order t). step_thresholds t k \<noteq> None"
    by (simp_all add: interp_wf_def)
  from start_session_result[OF a, of net1 i ts] start_session_wf[OF ws, of net1 i ts]
  obtain s' where s': "start_session net1 i ts s = Inr s'"
     "step_thresholds s' = step_thresholds s" "step_order s' = step_order s"
     "session_id s' = Some i"
     "step_statuses s' = (\<lambda>k. if k \<in> set (step_order s) then Some (new_status k) else None)"
     "last_confident_ts s' = (\<lambda>_. None)" "uncertainty_events s' = []" "interp_wf s'"
    by auto
  from start_session_result[OF b, of net2 j ts] start_session_wf[OF wt, of net2 j ts]
  obtain t' where t': "start_session net2 j ts t = Inr t'"
     "step_thresholds t' = step_thresholds t" "step_order t' = step_order t"
     "session_id t' = Some j"
     "step_statuses t' = (\<lambda>k. if k \<in> set (step_order t) then Some (new_status k) else None)"
     "last_confident_ts t' = (\<lambda>_. None)" "uncertainty_events t' = []" "interp_wf t'"
    by auto
  have "interp_rel s' t'" using s' t' e i j by (simp add: interp_rel_def)
  with s' t' i j show ?thesis by auto
qed

lemma end_session_rel:
  assumes "interp_rel s t"
  shows "interp_rel (end_session net1 ts s) (end_session net2 ts t)"
  using assms by (auto simp: interp_rel_def wf_end_session)

lemma snapshot_rel: "interp_rel s t \<Longrightarrow> snapshot s = snapshot t"
  by (simp add: interp_rel_def snapshot_def)

lemma record_signal_session_id:
  "record_signal (x\<lparr> ls_session_id := c \<rparr>) sg = (record_signal x sg)\<lparr> ls_session_id := c \<rparr>"
  by (simp add: record_signal_def Let_def)

lemma foldl_record_signal_session_id:
  "foldl record_signal (x\<lparr> ls_session_id := c \<rparr>) sigs
     = (foldl record_signal x sigs)\<lparr> ls_session_id := c \<rparr>"
  by (induction sigs arbitrary: x) (simp_all add: record_signal_session_id)

lemma logger_state_rel_fold:
  assumes "logger_state_rel x y"
  shows "logger_state_rel (foldl record_signal x sigs) (foldl record_signal y sigs)"
proof -
  from assms have "foldl record_signal (x\<lparr> ls_session_id := [] \<rparr>) sigs
                 = foldl record_signal (y\<lparr> ls_session_id := [] \<rparr>) sigs"
    by (simp add: logger_state_rel_def)
  then show ?thesis by (simp add: foldl_record_signal_session_id logger_state_rel_def)
qed

lemma build_record_session_id:
  "build_record f (x\<lparr> ls_session_id := c \<rparr>) e sts us
     = (build_record f x e sts us)\<lparr> rec_session_id := c \<rparr>"
  by (simp add: build_record_def Let_def)

lemma build_record_rel:
  assumes "logger_state_rel x y"
  shows "erase_session_fields (build_record f (x\<lparr> ls_notes := ls_notes x @ ns \<rparr>) e sts us)
       = erase_session_fields (build_record f (y\<lparr> ls_notes := ls_notes y @ ns \<rparr>) e sts us)"
proof -
  from assms have "(x\<lparr> ls_notes := ls_notes x @ ns \<rparr>)\<lparr> ls_session_id := [] \<rparr>
                 = (y\<lparr> ls_notes := ls_notes y @ ns \<rparr>)\<lparr> ls_session_id := [] \<rparr>"
    unfolding logger_state_rel_def
    by (metis (no_types, lifting) SessionState.select_convs(8) SessionState.surjective
          SessionState.update_convs(1) SessionState.update_convs(8))
  then have "build_record f ((x\<lparr> ls_notes := ls_notes x @ ns \<rparr>)\<lparr> ls_session_id := [] \<rparr>) e sts us
           = build_record f ((y\<lparr> ls_notes := ls_notes y @ ns \<rparr>)\<lparr> ls_session_id := [] \<rparr>) e sts us"
    by simp
  then show ?thesis
    unfolding build_record_session_id by (simp add: erase_session_fields_def)
qed


lemma handle_started_rel:
  assumes r: "interp_rel s t" and i: "i \<noteq> []" and j: "j \<noteq> []"
     and that: "lg1' = handle_session_started (started_event cfg i ts) (roi cfg) (demo_asset setup \<noteq> [])
                         (if demo_asset setup = [] then None else Some (demo_asset setup))
                         (model_version setup) lg1"
     "lg2' = handle_session_started (started_event cfg j ts) (roi cfg) (demo_asset setup \<noteq> [])
                         (if demo_asset setup = [] then None else Some (demo_asset setup))
                         (model_version setup) lg2"
  shows "\<exists>s' t' x y.
      capture_handle_events net1 cfg setup [started_event cfg i ts] (s, lg1) = Inr (s', lg1')
      \<and> capture_handle_events net2 cfg setup [started_event cfg j ts] (t, lg2) = Inr (t', lg2')
      \<and> interp_rel s' t' \<and> truthy (session_id s') \<and> truthy (session_id t')
      \<and> lg_sessions lg1' i = Some x \<and> lg_sessions lg2' j = Some y \<and> logger_state_rel x y
      \<and> lg_written lg1' = lg_written lg1 \<and> lg_written lg2' = lg_written lg2"
proof -
  from start_session_rel[OF r i j, of net1 ts net2]
  obtain s' t' where st: "start_session net1 i ts s = Inr s'" "start_session net2 j ts t = Inr t'"
      "interp_rel s' t'" "truthy (session_id s')" "truthy (session_id t')"
    by blast
  have a: "capture_handle_events net1 cfg setup [started_event cfg i ts] (s, lg1) = Inr (s', lg1')"
    using st(1) that(1) by (simp add: capture_handle_event_def started_event_def)
  have b: "capture_handle_events net2 cfg setup [started_event cfg j ts] (t, lg2) = Inr (t', lg2')"
    using st(2) that(2) by (simp add: capture_handle_event_def started_event_def)
  show ?thesis
    using a b st(3,4,5) that
    by (simp add: handle_session_started_def started_event_def logger_state_rel_def)
qed

lemma handle_ended_rel:
  assumes r: "interp_rel s t"
      and x: "lg_sessions lg1 i = Some x" and y: "lg_sessions lg2 j = Some y"
      and xy: "logger_state_rel x y"
      and w: "map erase_session_fields (lg_written lg1) = map erase_session_fields (lg_written lg2)"
  shows "\<exists>lg1' lg2'.
      capture_handle_events net1 cfg setup [ended_event cfg i ts reason d] (s, lg1)
        = Inr (end_session net1 ts s, lg1')
      \<and> capture_handle_events net2 cfg setup [ended_event cfg j ts reason d] (t, lg2)
        = Inr (end_session net2 ts t, lg2')
      \<and> map erase_session_fields (lg_written lg1') = map erase_session_fields (lg_written lg2')"
proof -
  let ?ns = "DurationNote d # (if reason \<noteq> [] then [ReasonNote reason] else [])"
  have e: "snapshot s = snapshot t" "uncertainty_events s = uncertainty_events t"
    using r by (simp_all add: snapshot_rel) (simp add: interp_rel_def)
  from build_record_rel[OF xy, of "ms_to_iso setup" ?ns ts "snapshot s" "uncertainty_events s"]
  have br: "erase_session_fields (build_record (ms_to_iso setup) (x\<lparr>ls_notes := ls_notes x @ ?ns\<rparr>) ts (snapshot s) (uncertainty_events s))
          = erase_session_fields (build_record (ms_to_iso setup) (y\<lparr>ls_notes := ls_notes y @ ?ns\<rparr>) ts (snapshot t) (uncertainty_events t))"
    using e by simp
  show ?thesis
    using x y w br
    by (simp add: capture_handle_event_def ended_event_def handle_session_ended_def Let_def)
qed

end
